theory Spec2Isabelle
  imports Complex_Main "HOL-Library.AList"
begin

section \<open>Python values\<close>

text \<open>
  The scraper \<^verbatim>\<open>spl_scraper.py\<close> moves JSON data around: the responses of two HTTP
  endpoints, the dictionaries it builds from them and the document it writes.  A Python
  \<^verbatim>\<open>str\<close> is a \<^typ>\<open>string\<close> here, one \<^typ>\<open>char\<close> for each code point, so \<^const>\<open>length\<close>
  is Python's \<^verbatim>\<open>len\<close>.  A Python \<^verbatim>\<open>dict\<close> is an association list in insertion
  order whose keys are distinct.  Floating-point numbers are left out of the value type.
  Every \<^verbatim>\<open>raise\<close> of the source is the \<open>Inl\<close> branch of a sum.
\<close>

datatype pyerror =
  KeyError | TypeError | AttributeError | ValueError | JSONDecodeError
  | UnicodeDecodeError | FileNotFoundError

datatype json =
  JNull | JBool bool | JInt int | JStr string | JArr "json list" | JObj "(string \<times> json) list"

text \<open>\<^verbatim>\<open>d[k] = v\<close>: an existing key keeps its place, a new one goes to the end.\<close>

fun dict_set :: "('k \<times> 'v) list \<Rightarrow> 'k \<Rightarrow> 'v \<Rightarrow> ('k \<times> 'v) list" where
  "dict_set [] k v = [(k, v)]"
| "dict_set ((k', v') # d) k v = (if k' = k then (k, v) # d else (k', v') # dict_set d k v)"

text \<open>Storing a sequence of items one after the other, as a dict comprehension does.\<close>

definition dict_update_all :: "('k \<times> 'v) list \<Rightarrow> ('k \<times> 'v) list \<Rightarrow> ('k \<times> 'v) list" where
  "dict_update_all d items = fold (\<lambda>kv d'. dict_set d' (fst kv) (snd kv)) items d"

text \<open>Running several fallible steps in order, stopping at the first that raises.\<close>

fun mapM :: "('a \<Rightarrow> pyerror + 'b) \<Rightarrow> 'a list \<Rightarrow> pyerror + 'b list" where
  "mapM f [] = Inr []"
| "mapM f (x # xs) =
     (case f x of
        Inl e \<Rightarrow> Inl e
      | Inr y \<Rightarrow> (case mapM f xs of Inl e \<Rightarrow> Inl e | Inr ys \<Rightarrow> Inr (y # ys)))"

text \<open>\<^verbatim>\<open>len(v)\<close>, \<^verbatim>\<open>bool(v)\<close>, \<^verbatim>\<open>for x in v\<close> and \<^verbatim>\<open>v[key]\<close> with a string key.\<close>

fun py_len :: "json \<Rightarrow> pyerror + nat" where
  "py_len (JStr s) = Inr (length s)"
| "py_len (JArr xs) = Inr (length xs)"
| "py_len (JObj d) = Inr (length d)"
| "py_len _ = Inl TypeError"

fun py_bool :: "json \<Rightarrow> bool" where
  "py_bool JNull = False"
| "py_bool (JBool b) = b"
| "py_bool (JInt n) = (n \<noteq> 0)"
| "py_bool (JStr s) = (s \<noteq> [])"
| "py_bool (JArr xs) = (xs \<noteq> [])"
| "py_bool (JObj d) = (d \<noteq> [])"

fun py_iter :: "json \<Rightarrow> pyerror + json list" where
  "py_iter (JArr xs) = Inr xs"
| "py_iter (JObj d) = Inr (map (\<lambda>kv. JStr (fst kv)) d)"
| "py_iter (JStr s) = Inr (map (\<lambda>c. JStr [c]) s)"
| "py_iter _ = Inl TypeError"

fun py_getitem :: "json \<Rightarrow> string \<Rightarrow> pyerror + json" where
  "py_getitem (JObj d) k = (case map_of d k of None \<Rightarrow> Inl KeyError | Some v \<Rightarrow> Inr v)"
| "py_getitem _ k = Inl TypeError"

text \<open>
  A dictionary with string keys asked for a key that is any value: a string is looked up,
  another scalar is hashable and never equal to a string, a list or a dictionary is
  unhashable (\<^verbatim>\<open>TypeError\<close>).  This is what \<^verbatim>\<open>k in d\<close>, \<^verbatim>\<open>d[k]\<close> and
  \<^verbatim>\<open>d.get(k, default)\<close> share.
\<close>

fun py_dict_lookup :: "(string \<times> 'v) list \<Rightarrow> json \<Rightarrow> pyerror + 'v option" where
  "py_dict_lookup d (JStr s) = Inr (map_of d s)"
| "py_dict_lookup d (JArr xs) = Inl TypeError"
| "py_dict_lookup d (JObj kvs) = Inl TypeError"
| "py_dict_lookup d _ = Inr None"

fun py_setitem :: "json \<Rightarrow> string \<Rightarrow> json \<Rightarrow> pyerror + json" where
  "py_setitem (JObj d) k v = Inr (JObj (dict_set d k v))"
| "py_setitem _ k v = Inl TypeError"

fun py_items :: "json \<Rightarrow> pyerror + (string \<times> json) list" where
  "py_items (JObj d) = Inr d"
| "py_items _ = Inl AttributeError"

subsection \<open>Integers and strings\<close>

text \<open>
  \<^verbatim>\<open>str(n)\<close> of an integer is its decimal numeral.  \<^verbatim>\<open>int(s)\<close> of a string skips
  white space at both ends, reads an optional sign and then decimal digits, with single
  underscores allowed between digits; anything else is a \<^verbatim>\<open>ValueError\<close>, here
  \<open>None\<close>.  \<^verbatim>\<open>s.strip()\<close> removes white space at both ends.
\<close>

definition digit_char :: "nat \<Rightarrow> char" where
  "digit_char d = ''0123456789'' ! d"

fun str_nat :: "nat \<Rightarrow> string" where
  "str_nat n = (if n < 10 then [digit_char n] else str_nat (n div 10) @ [digit_char (n mod 10)])"

definition str_int :: "int \<Rightarrow> string" where
  "str_int i = (if i < 0 then CHR ''-'' # str_nat (nat (- i)) else str_nat (nat i))"

definition is_space :: "char \<Rightarrow> bool" where
  "is_space c = ((of_char c :: nat) \<in> {9, 10, 11, 12, 13, 28, 29, 30, 31, 32, 133, 160})"

definition strip :: "string \<Rightarrow> string" where
  "strip s = rev (dropWhile is_space (rev (dropWhile is_space s)))"

text \<open>
  The white space \<^verbatim>\<open>int\<close> skips at both ends is narrower than that of
  \<^verbatim>\<open>str.strip\<close>: the separators \<open>28\<close> to \<open>31\<close> are not part of it.  A string with
  more than 4300 digits is refused whatever its value.
\<close>

definition is_int_space :: "char \<Rightarrow> bool" where
  "is_int_space c = ((of_char c :: nat) \<in> {9, 10, 11, 12, 13, 32, 133, 160})"

definition int_strip :: "string \<Rightarrow> string" where
  "int_strip s = rev (dropWhile is_int_space (rev (dropWhile is_int_space s)))"

definition is_digit :: "char \<Rightarrow> bool" where
  "is_digit c = (48 \<le> (of_char c :: nat) \<and> (of_char c :: nat) \<le> 57)"

fun digits_value :: "nat \<Rightarrow> bool \<Rightarrow> string \<Rightarrow> nat option" where
  "digits_value acc after_digit [] = (if after_digit then Some acc else None)"
| "digits_value acc after_digit (c # cs) =
     (if is_digit c then digits_value (10 * acc + (of_char c - 48)) True cs
      else if c = CHR ''_'' \<and> after_digit then digits_value acc False cs
      else None)"

definition py_int :: "string \<Rightarrow> int option" where
  "py_int s =
     (case int_strip s of
        [] \<Rightarrow> None
      | c # cs \<Rightarrow>
          if length (filter is_digit (c # cs)) > 4300 then None
          else if c = CHR ''+'' then map_option int (digits_value 0 False cs)
          else if c = CHR ''-'' then map_option (\<lambda>n. - int n) (digits_value 0 False cs)
          else map_option int (digits_value 0 False (c # cs)))"

section \<open>Region Catalog Loader\<close>

text \<open>
  \<^verbatim>\<open>get_regions\<close> returns the fixed table when \<^verbatim>\<open>use_arabic\<close> is false.  Otherwise it
  reads the bundled snippet and walks the \<^verbatim>\<open>option\<close> elements the HTML parser finds
  in it.  An element is given by its attributes and its text; the snippet is \<open>None\<close> when
  the file is absent or empty.  What \<^verbatim>\<open>_logger.exception\<close> records is returned next to
  the dictionary.
\<close>

record html_option =
  attrs :: "(string \<times> string) list"
  get_text :: string

datatype log_record = Log_exception string | Log_warning json

definition REGIONS :: "(string \<times> string) list" where
  "REGIONS =
     [(''1'', ''Riyadh''), (''6'', ''Asir''), (''5'', ''Eastern''), (''8'', ''Hail''),
      (''10'', ''Jazan''), (''3'', ''Madinah''), (''2'', ''Makkah''),
      (''9'', ''Northern Borders''), (''4'', ''Al Qassim''), (''7'', ''Tabuk''),
      (''11'', ''Najran''), (''12'', ''Al Bahah''), (''13'', ''Al Jawf'')]"

fun regions_loop ::
  "html_option list \<Rightarrow> (string \<times> string) list \<times> log_record list \<Rightarrow>
   pyerror + ((string \<times> string) list \<times> log_record list)" where
  "regions_loop [] st = Inr st"
| "regions_loop (opt # options) (regions, logged) =
     (case map_of (attrs opt) ''id'' of
        None \<Rightarrow> Inl KeyError
      | Some s \<Rightarrow>
          (case py_int s of
             None \<Rightarrow> regions_loop options (regions, logged @ [Log_exception s])
           | Some region_id \<Rightarrow>
               regions_loop options
                 (dict_set regions (str_int region_id) (strip (get_text opt)), logged)))"

definition get_regions ::
  "bool \<Rightarrow> html_option list option \<Rightarrow> pyerror + ((string \<times> string) list \<times> log_record list)" where
  "get_regions use_arabic regions_html =
     (if \<not> use_arabic then Inr (REGIONS, [])
      else case regions_html of
             None \<Rightarrow> Inr ([], [])
           | Some options \<Rightarrow> regions_loop options ([], []))"


subsection \<open>\<^verbatim>\<open>str\<close> of a value\<close>

text \<open>
  \<^verbatim>\<open>str(v)\<close> is the string itself for a string and \<^verbatim>\<open>repr(v)\<close> otherwise.  The
  \<^verbatim>\<open>repr\<close> of a string picks its quote and escapes what is not printable.
\<close>

definition hex_char :: "nat \<Rightarrow> char" where
  "hex_char d = ''0123456789abcdef'' ! d"

definition is_printable :: "char \<Rightarrow> bool" where
  "is_printable c =
     (let n = (of_char c :: nat) in (32 \<le> n \<and> n \<le> 126) \<or> (161 \<le> n \<and> n \<noteq> 173))"

definition repr_char :: "char \<Rightarrow> char \<Rightarrow> string" where
  "repr_char quote c =
     (if c = CHR 0x5C then [CHR 0x5C, CHR 0x5C]
      else if c = quote then [CHR 0x5C, quote]
      else if c = CHR 0x09 then [CHR 0x5C, CHR ''t'']
      else if c = CHR 0x0A then [CHR 0x5C, CHR ''n'']
      else if c = CHR 0x0D then [CHR 0x5C, CHR ''r'']
      else if is_printable c then [c]
      else [CHR 0x5C, CHR ''x'', hex_char (of_char c div 16), hex_char (of_char c mod 16)])"

definition repr_str :: "string \<Rightarrow> string" where
  "repr_str s =
     (let quote = (if CHR 0x27 \<in> set s \<and> CHR 0x22 \<notin> set s then CHR 0x22 else CHR 0x27)
      in [quote] @ concat (map (repr_char quote) s) @ [quote])"

fun join :: "string \<Rightarrow> string list \<Rightarrow> string" where
  "join sep [] = []"
| "join sep [x] = x"
| "join sep (x # y # ys) = x @ sep @ join sep (y # ys)"

fun py_repr :: "json \<Rightarrow> string" where
  "py_repr JNull = ''None''"
| "py_repr (JBool b) = (if b then ''True'' else ''False'')"
| "py_repr (JInt n) = str_int n"
| "py_repr (JStr s) = repr_str s"
| "py_repr (JArr xs) = ''['' @ join '', '' (map py_repr xs) @ '']''"
| "py_repr (JObj d) =
     ''{'' @ join '', '' (map (\<lambda>(k, v). repr_str k @ '': '' @ py_repr v) d) @ ''}''"

fun py_str :: "json \<Rightarrow> string" where
  "py_str (JStr s) = s"
| "py_str v = py_repr v"

section \<open>Response bodies and JSON documents\<close>

text \<open>
  The text of a response, or of a file, is either empty, or a JSON document, or something
  else.  \<^verbatim>\<open>json.loads\<close> raises on the first and the last.  From a document it builds
  lists in document order and dictionaries by storing the members in document order, so a
  repeated key keeps its first place and its last value.  \<^verbatim>\<open>json.dumps\<close> writes the
  items of a dictionary in iteration order.
\<close>

datatype pytext = Empty_text | Malformed_text | Json_text json

fun loads_value :: "json \<Rightarrow> json" where
  "loads_value (JArr xs) = JArr (map loads_value xs)"
| "loads_value (JObj members) =
     JObj (dict_update_all [] (map (\<lambda>(k, v). (k, loads_value v)) members))"
| "loads_value v = v"

fun json_loads :: "pytext \<Rightarrow> pyerror + json" where
  "json_loads Empty_text = Inl JSONDecodeError"
| "json_loads Malformed_text = Inl JSONDecodeError"
| "json_loads (Json_text doc) = Inr (loads_value doc)"

definition json_dumps :: "json \<Rightarrow> pytext" where
  "json_dumps v = Json_text v"

section \<open>District Fetcher: one request\<close>

text \<open>
  \<^verbatim>\<open>get_districts\<close> posts the city identifier and decodes the answer; the model takes
  the text of the answer as its third argument.  The length of the decoded value is
  computed for the log line before anything else is done with it.
\<close>

definition get_districts :: "json \<Rightarrow> bool \<Rightarrow> pytext \<Rightarrow> pyerror + (string \<times> json list) list" where
  "get_districts city_id use_arabic response_text =
     (case json_loads response_text of
        Inl e \<Rightarrow> Inl e
      | Inr res \<Rightarrow>
          (case py_len res of
             Inl e \<Rightarrow> Inl e
           | Inr n \<Rightarrow>
               if py_bool res then
                 (let district_name_key = (if use_arabic then ''ArabicName'' else ''EnglishName'')
                  in case py_iter res of
                       Inl e \<Rightarrow> Inl e
                     | Inr districts \<Rightarrow>
                         (case mapM (\<lambda>district. py_getitem district district_name_key) districts of
                            Inl e \<Rightarrow> Inl e
                          | Inr names \<Rightarrow> Inr [(py_str city_id, names)]))
               else Inr []))"

section \<open>City Fetcher\<close>

text \<open>
  The region\<open>\<rightarrow>\<close>cities mapping is a dictionary from region name to a list of city
  dictionaries with the keys \<^verbatim>\<open>name\<close>, \<^verbatim>\<open>id\<close> and \<^verbatim>\<open>districts\<close>.  \<^verbatim>\<open>get_cities\<close>
  returns it, or \<open>None\<close> when the text of the response is empty; the warnings it logs are
  returned with it.
\<close>

type_synonym mapping = "(string \<times> json list) list"

fun cities_loop ::
  "(string \<times> string) list \<Rightarrow> bool \<Rightarrow> json list \<Rightarrow> mapping \<times> log_record list \<Rightarrow>
   pyerror + (mapping \<times> log_record list)" where
  "cities_loop regions use_arabic [] st = Inr st"
| "cities_loop regions use_arabic (city # data) (region_city_mapping, logged) =
     (case py_getitem city ''fkEmirateID'' of
        Inl e \<Rightarrow> Inl e
      | Inr fk \<Rightarrow>
          (case py_dict_lookup regions fk of
             Inl e \<Rightarrow> Inl e
           | Inr None \<Rightarrow>
               cities_loop regions use_arabic data
                 (region_city_mapping, logged @ [Log_warning city])
           | Inr (Some region_name) \<Rightarrow>
               (case py_getitem city (if use_arabic then ''ArabicName'' else ''EnglishName'') of
                  Inl e \<Rightarrow> Inl e
                | Inr city_name \<Rightarrow>
                    (case py_getitem city ''pkCityID'' of
                       Inl e \<Rightarrow> Inl e
                     | Inr pk \<Rightarrow>
                         (let city_data =
                                JObj [(''name'', city_name), (''id'', pk), (''districts'', JArr [])]
                          in cities_loop regions use_arabic data
                               (case map_of region_city_mapping region_name of
                                  Some cities \<Rightarrow>
                                    dict_set region_city_mapping region_name (cities @ [city_data])
                                | None \<Rightarrow> dict_set region_city_mapping region_name [city_data],
                                logged))))))"

definition get_cities ::
  "(string \<times> string) list \<Rightarrow> bool \<Rightarrow> pytext \<Rightarrow> pyerror + (mapping option \<times> log_record list)" where
  "get_cities regions use_arabic response_text =
     (if response_text = Empty_text then Inr (None, [])
      else case json_loads response_text of
             Inl e \<Rightarrow> Inl e
           | Inr data \<Rightarrow>
               (case py_len data of
                  Inl e \<Rightarrow> Inl e
                | Inr n \<Rightarrow>
                    (case py_iter data of
                       Inl e \<Rightarrow> Inl e
                     | Inr cities \<Rightarrow>
                         (case cities_loop regions use_arabic cities ([], []) of
                            Inl e \<Rightarrow> Inl e
                          | Inr (region_city_mapping, logged) \<Rightarrow>
                              Inr (Some region_city_mapping, logged)))))"

section \<open>District Fetcher: fan-out and merge\<close>

text \<open>
  For each region the requests of its cities are gathered, the answers are merged into one
  dictionary and every city takes its districts from there.  The answers are given by
  region name and by the position of the city in its region, so that two requests never
  have to get the same answer.  \<^verbatim>\<open>asyncio.gather\<close> returns the results in the order of
  the tasks; the error of a failed batch is taken to be the first one in that order.
\<close>

definition merged_districts :: "(string \<times> json list) list list \<Rightarrow> (string \<times> json list) list" where
  "merged_districts get_districts_res = dict_update_all [] (concat get_districts_res)"

fun set_districts :: "(string \<times> json list) list \<Rightarrow> json list \<Rightarrow> pyerror + json list" where
  "set_districts merged [] = Inr []"
| "set_districts merged (city # cities) =
     (case py_getitem city ''id'' of
        Inl e \<Rightarrow> Inl e
      | Inr city_id \<Rightarrow>
          (case py_dict_lookup merged city_id of
             Inl e \<Rightarrow> Inl e
           | Inr found \<Rightarrow>
               (case py_setitem city ''districts''
                       (JArr (case found of None \<Rightarrow> [] | Some dists \<Rightarrow> dists)) of
                  Inl e \<Rightarrow> Inl e
                | Inr city' \<Rightarrow>
                    (case set_districts merged cities of
                       Inl e \<Rightarrow> Inl e
                     | Inr cities' \<Rightarrow> Inr (city' # cities')))))"

definition merge_region :: "(nat \<Rightarrow> pytext) \<Rightarrow> json list \<Rightarrow> pyerror + json list" where
  "merge_region responses cities =
     (case mapM (\<lambda>city. py_getitem city ''id'') cities of
        Inl e \<Rightarrow> Inl e
      | Inr ids \<Rightarrow>
          (case mapM (\<lambda>(i, city_id). get_districts city_id True (responses i)) (enumerate 0 ids) of
             Inl e \<Rightarrow> Inl e
           | Inr get_districts_res \<Rightarrow> set_districts (merged_districts get_districts_res) cities))"

fun merge_loop :: "(string \<Rightarrow> nat \<Rightarrow> pytext) \<Rightarrow> mapping \<Rightarrow> pyerror + mapping" where
  "merge_loop responses [] = Inr []"
| "merge_loop responses ((region, cities) # rest) =
     (case merge_region (responses region) cities of
        Inl e \<Rightarrow> Inl e
      | Inr cities' \<Rightarrow>
          (case merge_loop responses rest of
             Inl e \<Rightarrow> Inl e
           | Inr rest' \<Rightarrow> Inr ((region, cities') # rest')))"

fun get_and_merge_districts ::
  "mapping option \<Rightarrow> (string \<Rightarrow> nat \<Rightarrow> pytext) \<Rightarrow> pyerror + mapping" where
  "get_and_merge_districts None responses = Inl AttributeError"
| "get_and_merge_districts (Some region_city_mapping) responses =
     merge_loop responses region_city_mapping"

section \<open>Exporter\<close>

subsection \<open>Workbook\<close>

text \<open>
  What the script does to a workbook: it creates sheets, writes cells by row and column,
  sets the font of a cell and the width of a column.  A sheet is the record of that.
  Columns are numbered; \<^verbatim>\<open>get_column_letter\<close> names the columns \<open>1\<close> to \<open>18278\<close> by
  distinct letters and raises on any other number, so a dictionary keyed by column letter
  is one keyed by column number here.  The title of a sheet is the title the script asks
  for.  The library renames a sheet whose title is taken, refuses some characters in a
  title and some cell values, and cuts a long string; none of that is part of the model,
  and the property of the rows is stated for documents the library takes as they are.
\<close>

datatype font = Font (bold: bool) (size: nat)

definition default_font :: font where
  "default_font = Font False 11"

record cell =
  cell_value :: json
  cell_font :: font

record sheet =
  title :: string
  cells :: "nat \<times> nat \<Rightarrow> cell option"
  column_width :: "nat \<Rightarrow> rat option"

type_synonym workbook = "sheet list"

definition Workbook :: workbook where
  "Workbook = [\<lparr>title = ''Sheet'', cells = Map.empty, column_width = Map.empty\<rparr>]"

definition create_sheet :: "workbook \<Rightarrow> sheet \<Rightarrow> nat \<Rightarrow> workbook" where
  "create_sheet wb sh index = take index wb @ [sh] @ drop index wb"

definition sheet_cell :: "sheet \<Rightarrow> nat \<Rightarrow> nat \<Rightarrow> json \<Rightarrow> sheet" where
  "sheet_cell sh row column v =
     sh\<lparr>cells := (cells sh)((row, column) \<mapsto>
          (case cells sh (row, column) of
             None \<Rightarrow> \<lparr>cell_value = v, cell_font = default_font\<rparr>
           | Some c \<Rightarrow> c\<lparr>cell_value := v\<rparr>))\<rparr>"

definition set_font :: "sheet \<Rightarrow> nat \<Rightarrow> nat \<Rightarrow> font \<Rightarrow> sheet" where
  "set_font sh row column f =
     sh\<lparr>cells := (cells sh)((row, column) := map_option (\<lambda>c. c\<lparr>cell_font := f\<rparr>) (cells sh (row, column)))\<rparr>"

definition set_width :: "sheet \<Rightarrow> nat \<Rightarrow> rat \<Rightarrow> sheet" where
  "set_width sh column w = sh\<lparr>column_width := (column_width sh)(column \<mapsto> w)\<rparr>"

definition get_column_letter :: "nat \<Rightarrow> pyerror + nat" where
  "get_column_letter col_idx = (if 1 \<le> col_idx \<and> col_idx \<le> 18278 then Inr col_idx else Inl ValueError)"

subsection \<open>Rendering\<close>

text \<open>
  \<^verbatim>\<open>round(len(name) * 1.2)\<close>: the product is never half way between two integers, and
  the floating-point error is far below its distance to the nearest half, so the result
  is the integer nearest to six fifths of the length.
\<close>

definition round_scaled :: "nat \<Rightarrow> nat" where
  "round_scaled n = (12 * n + 5) div 10"

text \<open>The sort key \<^verbatim>\<open>len(x.get('districts', []))\<close>.\<close>

fun districts_count :: "json \<Rightarrow> pyerror + nat" where
  "districts_count (JObj d) =
     py_len (case map_of d ''districts'' of None \<Rightarrow> JArr [] | Some v \<Rightarrow> v)"
| "districts_count _ = Inl AttributeError"

text \<open>
  \<^verbatim>\<open>sorted(cities, key=..., reverse=True)\<close> computes every key first and then sorts
  stably, largest key first: cities with equal keys keep their order.
\<close>

definition sorted_desc :: "nat list \<Rightarrow> json list \<Rightarrow> json list" where
  "sorted_desc keys cities = map snd (sort_key (\<lambda>p. - int (fst p)) (zip keys cities))"

text \<open>The inner loop over \<^verbatim>\<open>enumerate(city['districts'], start=2)\<close>.\<close>

fun write_districts ::
  "nat \<Rightarrow> nat \<Rightarrow> json list \<Rightarrow> sheet \<times> (nat \<Rightarrow> nat option) \<Rightarrow>
   pyerror + (sheet \<times> (nat \<Rightarrow> nat option))" where
  "write_districts count col_idx [] st = Inr st"
| "write_districts count col_idx (district # rest) (sh, district_column_lens) =
     (let sh1 = sheet_cell sh count col_idx district
      in case get_column_letter col_idx of
           Inl e \<Rightarrow> Inl e
         | Inr col_letter \<Rightarrow>
             (case py_len district of
                Inl e \<Rightarrow> Inl e
              | Inr district_len \<Rightarrow>
                  (let col_max_len =
                         (case district_column_lens col_letter of
                            None \<Rightarrow> district_len
                          | Some l \<Rightarrow> if l = 0 then district_len else l)
                   in if district_len > col_max_len \<or> district_column_lens col_letter = None
                      then write_districts count (col_idx + 1) rest
                             (set_width sh1 col_letter (of_nat district_len),
                              district_column_lens(col_letter \<mapsto> district_len))
                      else write_districts count (col_idx + 1) rest (sh1, district_column_lens))))"

text \<open>The loop over the sorted cities; \<open>count\<close> is the row.\<close>

fun write_cities ::
  "nat \<Rightarrow> json list \<Rightarrow> sheet \<times> rat \<times> (nat \<Rightarrow> nat option) \<Rightarrow>
   pyerror + (sheet \<times> rat \<times> (nat \<Rightarrow> nat option))" where
  "write_cities count [] st = Inr st"
| "write_cities count (city # rest) (sh, city_column_max_len, district_column_lens) =
     (case py_getitem city ''name'' of
        Inl e \<Rightarrow> Inl e
      | Inr city_name \<Rightarrow>
          (let sh1 = set_font (sheet_cell sh count 1 city_name) count 1 (Font True 12)
           in case py_len city_name of
                Inl e \<Rightarrow> Inl e
              | Inr n \<Rightarrow>
                  (let city_len = round_scaled n;
                       grows = (of_nat city_len > city_column_max_len);
                       city_column_max_len' = (if grows then of_nat city_len else city_column_max_len);
                       sh2 = (if grows then set_width sh1 1 city_column_max_len' else sh1)
                   in case py_getitem city ''districts'' of
                        Inl e \<Rightarrow> Inl e
                      | Inr ds \<Rightarrow>
                          (case py_iter ds of
                             Inl e \<Rightarrow> Inl e
                           | Inr districts \<Rightarrow>
                               (case write_districts count 2 districts (sh2, district_column_lens) of
                                  Inl e \<Rightarrow> Inl e
                                | Inr (sh3, district_column_lens') \<Rightarrow>
                                    write_cities (count + 1) rest
                                      (sh3, city_column_max_len', district_column_lens'))))))"

text \<open>The body of the loop over the regions: one sheet.\<close>

definition write_sheet :: "string \<Rightarrow> json \<Rightarrow> pyerror + sheet" where
  "write_sheet region cities =
     (let city_column_max_len = 6 / 5;
          sh = set_width \<lparr>title = region, cells = Map.empty, column_width = Map.empty\<rparr> 1
                 city_column_max_len
      in case py_iter cities of
           Inl e \<Rightarrow> Inl e
         | Inr cs \<Rightarrow>
             (case mapM districts_count cs of
                Inl e \<Rightarrow> Inl e
              | Inr keys \<Rightarrow>
                  (case write_cities 1 (sorted_desc keys cs) (sh, city_column_max_len, Map.empty) of
                     Inl e \<Rightarrow> Inl e
                   | Inr (sh', _, _) \<Rightarrow> Inr sh')))"

fun write_sheets :: "nat \<Rightarrow> (string \<times> json) list \<Rightarrow> workbook \<Rightarrow> pyerror + workbook" where
  "write_sheets idx [] wb = Inr wb"
| "write_sheets idx ((region, cities) # rest) wb =
     (case write_sheet region cities of
        Inl e \<Rightarrow> Inl e
      | Inr sh \<Rightarrow> write_sheets (idx + 1) rest (create_sheet wb sh (idx - 1)))"

subsection \<open>Files\<close>

text \<open>
  A file holds text or a saved workbook.  Reading a saved workbook as UTF-8 text fails.
\<close>

datatype file_content = Text_file pytext | Xlsx_file workbook

type_synonym file_system = "string \<Rightarrow> file_content option"

definition save_to_excel :: "string \<Rightarrow> string \<Rightarrow> file_system \<Rightarrow> pyerror + file_system" where
  "save_to_excel save_path json_source fs =
     (case fs json_source of
        None \<Rightarrow> Inl FileNotFoundError
      | Some (Xlsx_file wb) \<Rightarrow> Inl UnicodeDecodeError
      | Some (Text_file t) \<Rightarrow>
          (case json_loads t of
             Inl e \<Rightarrow> Inl e
           | Inr region_data_citi_final \<Rightarrow>
               (case py_items region_data_citi_final of
                  Inl e \<Rightarrow> Inl e
                | Inr items \<Rightarrow>
                    (case write_sheets 1 items Workbook of
                       Inl e \<Rightarrow> Inl e
                     | Inr workbook \<Rightarrow> Inr (fs(save_path \<mapsto> Xlsx_file workbook))))))"

section \<open>The pipeline\<close>

text \<open>
  \<^verbatim>\<open>main\<close> runs the stages with their default flags, writes the JSON document and
  renders it.  Its surroundings are the snippet, the answers of the remote service, the
  directory of the script and the files there.
\<close>

definition RESULTS_JSON :: string where
  "RESULTS_JSON = ''region_cities_districts.json''"

definition RESULTS_EXCEL :: string where
  "RESULTS_EXCEL = ''region_cities_districts.json''"

record env =
  regions_html :: "html_option list option"
  cities_response :: pytext
  districts_response :: "string \<Rightarrow> nat \<Rightarrow> pytext"
  parent :: string
  disk :: file_system

definition path_join :: "string \<Rightarrow> string \<Rightarrow> string" where
  "path_join dir file_name = dir @ ''/'' @ file_name"

definition mapping_json :: "mapping \<Rightarrow> json" where
  "mapping_json res_data = JObj (map (\<lambda>(region, cities). (region, JArr cities)) res_data)"

definition main :: "env \<Rightarrow> pyerror + file_system" where
  "main env =
     (case get_regions True (regions_html env) of
        Inl e \<Rightarrow> Inl e
      | Inr (regions, logged) \<Rightarrow>
          (case get_cities regions True (cities_response env) of
             Inl e \<Rightarrow> Inl e
           | Inr (region_city_mapping, warnings) \<Rightarrow>
               (case get_and_merge_districts region_city_mapping (districts_response env) of
                  Inl e \<Rightarrow> Inl e
                | Inr res_data \<Rightarrow>
                    (let json_results_path = path_join (parent env) RESULTS_JSON;
                         fs1 = (disk env)(json_results_path \<mapsto> Text_file (json_dumps (mapping_json res_data)));
                         excel_results_path = path_join (parent env) RESULTS_EXCEL
                     in save_to_excel excel_results_path json_results_path fs1))))"

section \<open>Vocabulary of the properties\<close>




text \<open>
  The keys under which the answers for the cities of a region are merged, and what the
  merge loop does to one city given the merged dictionary.
\<close>

definition id_keys :: "json list \<Rightarrow> string list" where
  "id_keys cities =
     map (\<lambda>city. case py_getitem city ''id'' of Inl e \<Rightarrow> [] | Inr v \<Rightarrow> py_str v) cities"

definition city_merged :: "(string \<times> json list) list \<Rightarrow> json \<Rightarrow> json \<Rightarrow> bool" where
  "city_merged merged c c' =
     (\<exists>cid found. py_getitem c ''id'' = Inr cid \<and> py_dict_lookup merged cid = Inr found \<and>
        py_setitem c ''districts'' (JArr (case found of None \<Rightarrow> [] | Some ds \<Rightarrow> ds)) = Inr c')"

text \<open>
  A city of the listing as \<^verbatim>\<open>get_cities\<close> reads it: the entry has the region
  reference, the name field the flag selects and the city identifier, and the region
  reference can be looked up in a dictionary.  The region a city is filed under is the
  catalog's name for its region reference, when that is one of the catalog's keys.
\<close>

definition hashable :: "json \<Rightarrow> bool" where
  "hashable v = (case v of JArr xs \<Rightarrow> False | JObj d \<Rightarrow> False | _ \<Rightarrow> True)"

definition item :: "json \<Rightarrow> string \<Rightarrow> json" where
  "item city k = (case py_getitem city k of Inl e \<Rightarrow> JNull | Inr v \<Rightarrow> v)"

definition listed_city :: "bool \<Rightarrow> json \<Rightarrow> bool" where
  "listed_city use_arabic city =
     (\<not> isl (py_getitem city ''fkEmirateID'') \<and> hashable (item city ''fkEmirateID'') \<and>
      \<not> isl (py_getitem city (if use_arabic then ''ArabicName'' else ''EnglishName'')) \<and>
      \<not> isl (py_getitem city ''pkCityID''))"

definition city_region :: "(string \<times> string) list \<Rightarrow> json \<Rightarrow> string option" where
  "city_region regions city =
     (case item city ''fkEmirateID'' of JStr s \<Rightarrow> map_of regions s | _ \<Rightarrow> None)"

definition city_record :: "bool \<Rightarrow> json \<Rightarrow> json" where
  "city_record use_arabic city =
     JObj [(''name'', item city (if use_arabic then ''ArabicName'' else ''EnglishName'')),
           (''id'', item city ''pkCityID''), (''districts'', JArr [])]"

definition cities_of :: "mapping \<Rightarrow> string \<Rightarrow> json list" where
  "cities_of m region = (case map_of m region of None \<Rightarrow> [] | Some cities \<Rightarrow> cities)"

text \<open>
  The values Python can hold: every dictionary inside has pairwise different keys.
\<close>

fun is_py_value :: "json \<Rightarrow> bool" where
  "is_py_value (JArr xs) = (\<forall>x \<in> set xs. is_py_value x)"
| "is_py_value (JObj d) = (distinct (map fst d) \<and> (\<forall>kv \<in> set d. is_py_value (snd kv)))"
| "is_py_value v = True"

definition is_py_mapping :: "mapping \<Rightarrow> bool" where
  "is_py_mapping m =
     (distinct (map fst m) \<and> (\<forall>rc \<in> set m. \<forall>city \<in> set (snd rc). is_py_value city))"

text \<open>
  The rows of a sheet are the cities sorted by district count, largest first, cities of
  equal count in their order of the document.  A city contributes its name, the list of
  its districts and their lengths; a district column takes one length after the other.
\<close>

definition district_count :: "json \<Rightarrow> nat" where
  "district_count city = (case districts_count city of Inl e \<Rightarrow> 0 | Inr n \<Rightarrow> n)"

definition sheet_rows :: "json list \<Rightarrow> json list" where
  "sheet_rows cities = sort_key (\<lambda>city. - int (district_count city)) cities"

definition districts_list :: "json \<Rightarrow> json list" where
  "districts_list city =
     (case py_iter (item city ''districts'') of Inl e \<Rightarrow> [] | Inr districts \<Rightarrow> districts)"

definition value_len :: "json \<Rightarrow> nat" where
  "value_len v = (case py_len v of Inl e \<Rightarrow> 0 | Inr n \<Rightarrow> n)"

definition blank_sheet :: "string \<Rightarrow> sheet" where
  "blank_sheet region =
     set_width \<lparr>title = region, cells = Map.empty, column_width = Map.empty\<rparr> 1 (6 / 5)"

fun widen :: "nat option \<Rightarrow> nat \<Rightarrow> nat option" where
  "widen None n = Some n"
| "widen (Some l) n = Some (if l \<noteq> 0 \<and> l < n then n else l)"

definition column_lens :: "json list \<Rightarrow> nat \<Rightarrow> nat list" where
  "column_lens rows j =
     map (\<lambda>city. value_len (districts_list city ! j))
       (filter (\<lambda>city. j < length (districts_list city)) rows)"

definition name_width :: "json \<Rightarrow> rat" where
  "name_width city = of_nat (round_scaled (value_len (item city ''name'')))"

text \<open>The cell a row shows in a column: the name in bold in column 1, then the districts.\<close>

definition row_cell :: "json \<Rightarrow> nat \<Rightarrow> cell option" where
  "row_cell city c =
     (if c = 1 then Some \<lparr>cell_value = item city ''name'', cell_font = Font True 12\<rparr>
      else if 2 \<le> c \<and> c < 2 + length (districts_list city)
      then Some \<lparr>cell_value = districts_list city ! (c - 2), cell_font = default_font\<rparr>
      else None)"

text \<open>
  The length of the longest city name of a sheet, and the sheet as it stands when the
  first \<open>n\<close> rows have been written.
\<close>

definition longest_name :: "json list \<Rightarrow> nat" where
  "longest_name cities = Max (insert 0 ((\<lambda>city. value_len (item city ''name'')) ` set cities))"

definition sheet_after :: "string \<Rightarrow> json list \<Rightarrow> nat \<Rightarrow> sheet" where
  "sheet_after region rows n =
     (case write_cities 1 (take n rows) (blank_sheet region, 6 / 5, Map.empty) of
        Inl e \<Rightarrow> blank_sheet region
      | Inr (sh, mx, lens) \<Rightarrow> sh)"

text \<open>
  The documents the render properties speak of: every region's value is a list of cities,
  city names and district names are strings that the workbook library stores as they are
  (no control character it refuses, not longer than it keeps), and no region name has a
  character the library refuses in a sheet title.
\<close>

definition illegal_character :: "char \<Rightarrow> bool" where
  "illegal_character c =
     (let n = (of_char c :: nat) in n \<le> 8 \<or> n = 11 \<or> n = 12 \<or> (14 \<le> n \<and> n \<le> 31))"

definition stored_unchanged :: "json \<Rightarrow> bool" where
  "stored_unchanged v =
     (case v of
        JStr s \<Rightarrow> length s \<le> 32767 \<and> list_all (\<lambda>c. \<not> illegal_character c) s
      | _ \<Rightarrow> False)"

definition refused_in_title :: "char \<Rightarrow> bool" where
  "refused_in_title c =
     (c \<in> set [CHR 0x5C, CHR ''*'', CHR ''?'', CHR '':'', CHR ''/'', CHR ''['', CHR '']''])"

definition plain_city :: "json \<Rightarrow> bool" where
  "plain_city city =
     (stored_unchanged (item city ''name'') \<and> list_all stored_unchanged (districts_list city))"

definition plain_document :: "(string \<times> json) list \<Rightarrow> bool" where
  "plain_document items =
     list_all
       (\<lambda>(region, cities).
           list_all (\<lambda>c. \<not> refused_in_title c) region \<and>
           (case cities of JArr cs \<Rightarrow> list_all plain_city cs | _ \<Rightarrow> False))
       items"

section \<open>Dictionaries and sequenced steps\<close>

lemma map_of_dict_set: "map_of (dict_set d k v) = (map_of d)(k \<mapsto> v)"
  by (induction d k v rule: dict_set.induct) auto

lemma keys_dict_set: "fst ` set (dict_set d k v) = insert k (fst ` set d)"
  by (induction d k v rule: dict_set.induct) auto

lemma distinct_dict_set: "distinct (map fst d) \<Longrightarrow> distinct (map fst (dict_set d k v))"
  by (induction d k v rule: dict_set.induct) (auto simp: keys_dict_set)

lemma dict_set_new: "k \<notin> fst ` set d \<Longrightarrow> dict_set d k v = d @ [(k, v)]"
  by (induction d k v rule: dict_set.induct) auto

lemma dict_update_all_Nil [simp]: "dict_update_all d [] = d"
  by (simp add: dict_update_all_def)

lemma dict_update_all_Cons [simp]:
  "dict_update_all d (kv # items) = dict_update_all (dict_set d (fst kv) (snd kv)) items"
  by (simp add: dict_update_all_def)

lemma dict_update_all_append [simp]:
  "dict_update_all d (xs @ ys) = dict_update_all (dict_update_all d xs) ys"
  by (simp add: dict_update_all_def)

lemma map_of_dict_update_all: "map_of (dict_update_all d items) = map_of d ++ map_of (rev items)"
  by (induction items arbitrary: d) (auto simp: map_of_dict_set map_add_def fun_eq_iff split: option.splits)

lemma distinct_dict_update_all:
  "distinct (map fst d) \<Longrightarrow> distinct (map fst (dict_update_all d items))"
  by (induction items arbitrary: d) (auto simp: distinct_dict_set)

lemma dict_update_all_distinct:
  "distinct (map fst (d @ items)) \<Longrightarrow> dict_update_all d items = d @ items"
proof (induction items arbitrary: d)
  case Nil
  then show ?case by simp
next
  case (Cons kv items)
  have "fst kv \<notin> fst ` set d" using Cons.prems by auto
  then have "dict_set d (fst kv) (snd kv) = d @ [kv]" by (simp add: dict_set_new)
  moreover have "distinct (map fst ((d @ [kv]) @ items))" using Cons.prems by auto
  ultimately show ?case using Cons.IH [of "d @ [kv]"] by simp
qed

lemma dict_update_all_member:
  "map_of (dict_update_all [] items) k = Some v \<Longrightarrow> (k, v) \<in> set items"
  using map_of_SomeD [of "rev items" k v] by (simp add: map_of_dict_update_all)

lemma mapM_Inr_iff: "mapM f xs = Inr ys \<longleftrightarrow> list_all2 (\<lambda>x y. f x = Inr y) xs ys"
proof (induction xs arbitrary: ys)
  case Nil
  then show ?case by auto
next
  case (Cons x xs)
  show ?case
    by (cases ys) (auto simp: Cons.IH [symmetric] split: sum.splits)
qed

lemma mapM_Inl_iff:
  "mapM f xs = Inl e \<longleftrightarrow>
     (\<exists>i < length xs. f (xs ! i) = Inl e \<and> (\<forall>j < i. \<exists>y. f (xs ! j) = Inr y))"
proof (induction xs)
  case Nil
  then show ?case by simp
next
  case (Cons x xs)
  show ?case
  proof (cases "f x")
    case (Inl e')
    show ?thesis
    proof
      assume "mapM f (x # xs) = Inl e"
      then have "e' = e" using Inl by simp
      then show "\<exists>i<length (x # xs). f ((x # xs) ! i) = Inl e \<and> (\<forall>j<i. \<exists>y. f ((x # xs) ! j) = Inr y)"
        using Inl by (intro exI [of _ 0]) simp
    next
      assume "\<exists>i<length (x # xs). f ((x # xs) ! i) = Inl e \<and> (\<forall>j<i. \<exists>y. f ((x # xs) ! j) = Inr y)"
      then obtain i where i: "i < length (x # xs)" "f ((x # xs) ! i) = Inl e"
        "\<forall>j<i. \<exists>y. f ((x # xs) ! j) = Inr y" by blast
      have "i = 0"
      proof (rule ccontr)
        assume "i \<noteq> 0"
        then have "\<exists>y. f ((x # xs) ! 0) = Inr y" using i(3) by blast
        then show False using Inl by simp
      qed
      then show "mapM f (x # xs) = Inl e" using i(2) Inl by simp
    qed
  next
    case (Inr y)
    have "mapM f (x # xs) = Inl e \<longleftrightarrow> mapM f xs = Inl e"
      using Inr by (simp split: sum.splits)
    also have "\<dots> \<longleftrightarrow> (\<exists>i < length xs. f (xs ! i) = Inl e \<and> (\<forall>j < i. \<exists>y. f (xs ! j) = Inr y))"
      by (rule Cons.IH)
    also have "\<dots> \<longleftrightarrow> (\<exists>i<length (x # xs). f ((x # xs) ! i) = Inl e \<and> (\<forall>j<i. \<exists>y. f ((x # xs) ! j) = Inr y))"
    proof
      assume "\<exists>i < length xs. f (xs ! i) = Inl e \<and> (\<forall>j < i. \<exists>y. f (xs ! j) = Inr y)"
      then obtain i where i: "i < length xs" "f (xs ! i) = Inl e" "\<forall>j < i. \<exists>y. f (xs ! j) = Inr y"
        by blast
      have "\<forall>j < Suc i. \<exists>y. f ((x # xs) ! j) = Inr y"
        using i(3) Inr by (auto simp: nth_Cons split: nat.splits)
      then show "\<exists>i<length (x # xs). f ((x # xs) ! i) = Inl e \<and> (\<forall>j<i. \<exists>y. f ((x # xs) ! j) = Inr y)"
        using i(1,2) by (intro exI [of _ "Suc i"]) simp
    next
      assume "\<exists>i<length (x # xs). f ((x # xs) ! i) = Inl e \<and> (\<forall>j<i. \<exists>y. f ((x # xs) ! j) = Inr y)"
      then obtain i where i: "i < length (x # xs)" "f ((x # xs) ! i) = Inl e"
        "\<forall>j<i. \<exists>y. f ((x # xs) ! j) = Inr y" by blast
      then obtain i' where i': "i = Suc i'" using Inr by (cases i) auto
      have "\<forall>j < i'. \<exists>y. f (xs ! j) = Inr y"
      proof (intro allI impI)
        fix j assume "j < i'"
        then have "Suc j < i" using i' by simp
        then have "\<exists>y. f ((x # xs) ! Suc j) = Inr y" using i(3) by blast
        then show "\<exists>y. f (xs ! j) = Inr y" by simp
      qed
      then show "\<exists>i < length xs. f (xs ! i) = Inl e \<and> (\<forall>j < i. \<exists>y. f (xs ! j) = Inr y)"
        using i(1,2) i' by (intro exI [of _ i']) simp
    qed
    finally show ?thesis .
  qed
qed

section \<open>Properties of the Region Catalog Loader\<close>





section \<open>Properties of the City Fetcher\<close>

text \<open>
  C9.  On an empty response body \<^verbatim>\<open>get_cities\<close> returns \<open>None\<close>, not an empty mapping,
  and logs nothing; the merge stage, handed \<open>None\<close>, raises \<^verbatim>\<open>AttributeError\<close>, and so
  does \<^verbatim>\<open>main\<close> once the catalog is loaded.
\<close>

theorem get_cities_empty_body_returns_None:
  "get_cities regions use_arabic Empty_text = Inr (None, [])
   \<and> get_cities regions use_arabic Empty_text \<noteq> Inr (Some [], [])
   \<and> get_and_merge_districts None responses = Inl AttributeError
   \<and> main (env\<lparr>cities_response := Empty_text\<rparr>) =
       (case get_regions True (regions_html env) of
          Inl e \<Rightarrow> Inl e
        | Inr catalog \<Rightarrow> Inl AttributeError)"
  by (simp add: get_cities_def main_def split: sum.splits prod.splits)

section \<open>Properties of the District Fetcher\<close>

lemma get_districts_cases:
  assumes "get_districts city_id use_arabic t = Inr r"
  shows "r = [] \<or>
         (\<exists>res districts names.
            json_loads t = Inr res \<and> py_iter res = Inr districts \<and>
            list_all2 (\<lambda>d n. py_getitem d (if use_arabic then ''ArabicName'' else ''EnglishName'') = Inr n)
              districts names \<and>
            r = [(py_str city_id, names)])"
  using assms
  by (auto simp: get_districts_def Let_def mapM_Inr_iff split: sum.splits if_splits)

lemma get_districts_keys:
  assumes "get_districts city_id use_arabic t = Inr r"
  shows "fst ` set r \<subseteq> {py_str city_id}"
  using get_districts_cases [OF assms] by auto

lemma set_districts_Inr_iff:
  "set_districts merged cities = Inr cities' \<longleftrightarrow> list_all2 (city_merged merged) cities cities'"
proof (induction cities arbitrary: cities')
  case Nil
  then show ?case by auto
next
  case (Cons c cities)
  show ?case
  proof (cases cities')
    case Nil
    then show ?thesis by (auto split: sum.splits)
  next
    case (Cons c' cs')
    have "set_districts merged (c # cities) = Inr (c' # cs') \<longleftrightarrow>
          city_merged merged c c' \<and> set_districts merged cities = Inr cs'"
      by (auto simp: city_merged_def split: sum.splits)
    then show ?thesis using Cons Cons.IH [of cs'] by simp
  qed
qed

lemma mapM_enumerate_Inr_iff:
  "mapM (\<lambda>(i, x). g i x) (enumerate 0 xs) = Inr ys \<longleftrightarrow>
     length ys = length xs \<and> (\<forall>i < length xs. g i (xs ! i) = Inr (ys ! i))"
  by (auto simp: mapM_Inr_iff list_all2_conv_all_nth nth_enumerate_eq)

lemma merge_region_Inr:
  assumes "merge_region responses cities = Inr cities'"
  shows "\<exists>ids results.
           list_all2 (\<lambda>c v. py_getitem c ''id'' = Inr v) cities ids \<and>
           length results = length cities \<and>
           (\<forall>i < length cities. get_districts (ids ! i) True (responses i) = Inr (results ! i)) \<and>
           list_all2 (city_merged (merged_districts results)) cities cities'"
proof -
  from assms obtain ids where ids: "mapM (\<lambda>city. py_getitem city ''id'') cities = Inr ids"
    by (auto simp: merge_region_def split: sum.splits)
  with assms obtain results where
    results: "mapM (\<lambda>(i, city_id). get_districts city_id True (responses i)) (enumerate 0 ids) = Inr results"
    and sd: "set_districts (merged_districts results) cities = Inr cities'"
    by (auto simp: merge_region_def split: sum.splits)
  have l: "list_all2 (\<lambda>c v. py_getitem c ''id'' = Inr v) cities ids"
    using ids by (simp add: mapM_Inr_iff)
  then have len: "length ids = length cities" by (simp add: list_all2_lengthD)
  have "length results = length cities \<and>
        (\<forall>i < length cities. get_districts (ids ! i) True (responses i) = Inr (results ! i))"
    using results len by (simp add: mapM_enumerate_Inr_iff)
  then show ?thesis using l sd by (auto simp: set_districts_Inr_iff)
qed

lemma merge_loop_Inr_iff:
  "merge_loop responses m = Inr m' \<longleftrightarrow>
     list_all2 (\<lambda>rc rc'. fst rc' = fst rc \<and> merge_region (responses (fst rc)) (snd rc) = Inr (snd rc')) m m'"
proof (induction m arbitrary: m')
  case Nil
  then show ?case by auto
next
  case (Cons rc m)
  obtain r cs where rc: "rc = (r, cs)" by (cases rc)
  show ?case unfolding rc
    by (cases m') (auto simp: Cons.IH [symmetric] split: sum.splits)
qed

lemma py_getitem_setitem:
  "py_setitem c k v = Inr c' \<Longrightarrow> py_getitem c' k = Inr v"
  by (cases c) (auto simp: map_of_dict_set)

lemma py_getitem_setitem_other:
  "py_setitem c k v = Inr c' \<Longrightarrow> k' \<noteq> k \<Longrightarrow> py_getitem c' k' = py_getitem c k'"
  by (cases c) (auto simp: map_of_dict_set)

lemma merged_lookup:
  assumes len: "length keys = length results"
    and shape: "\<forall>j < length results. results ! j = [] \<or> (\<exists>v. results ! j = [(keys ! j, v)])"
    and dist: "distinct keys"
    and i: "i < length results"
  shows "map_of (merged_districts results) (keys ! i) =
           (case results ! i of [] \<Rightarrow> None | kv # rest \<Rightarrow> Some (snd kv))"
proof -
  have mem: "results ! i = [(keys ! i, v)]" if "(keys ! i, v) \<in> set (concat results)" for v
  proof -
    from that obtain ys where "ys \<in> set results" "(keys ! i, v) \<in> set ys" by auto
    then obtain j where j: "j < length results" "(keys ! i, v) \<in> set (results ! j)"
      by (auto simp: in_set_conv_nth)
    then have rj: "results ! j = [(keys ! j, v)]" "keys ! j = keys ! i" using shape by auto
    then have "j = i" using dist j(1) i len by (simp add: nth_eq_iff_index_eq)
    then show ?thesis using rj by simp
  qed
  have eq: "map_of (merged_districts results) = map_of (rev (concat results))"
    by (simp add: merged_districts_def map_of_dict_update_all)
  show ?thesis
  proof (cases "map_of (rev (concat results)) (keys ! i)")
    case None
    then have "keys ! i \<notin> fst ` set (concat results)"
      by (metis map_of_eq_None_iff set_rev)
    then have notin: "(keys ! i, v) \<notin> set (results ! i)" for v
      using i by (force simp: in_set_conv_nth)
    have "results ! i = []"
    proof (rule ccontr)
      assume "results ! i \<noteq> []"
      then obtain v where "results ! i = [(keys ! i, v)]" using shape i by blast
      then show False using notin [of v] by simp
    qed
    then show ?thesis using None eq by simp
  next
    case (Some v)
    then have "(keys ! i, v) \<in> set (concat results)"
      using map_of_SomeD [of "rev (concat results)"] by simp
    then have "results ! i = [(keys ! i, v)]" by (rule mem)
    then show ?thesis using Some eq by simp
  qed
qed

lemma merge_region_own_districts:
  assumes run: "merge_region responses cities = Inr cities'"
    and i: "i < length cities"
    and cid: "py_getitem (cities ! i) ''id'' = Inr cid"
    and dist: "distinct (id_keys cities)"
  shows "\<exists>r. get_districts cid True (responses i) = Inr r \<and>
           py_getitem (cities' ! i) ''districts'' =
             Inr (JArr (case cid of
                          JStr s \<Rightarrow> (case r of [] \<Rightarrow> [] | kv # rest \<Rightarrow> snd kv)
                        | _ \<Rightarrow> []))"
proof -
  from merge_region_Inr [OF run] obtain ids results where
    ids: "list_all2 (\<lambda>c v. py_getitem c ''id'' = Inr v) cities ids"
    and len: "length results = length cities"
    and res: "\<forall>i < length cities. get_districts (ids ! i) True (responses i) = Inr (results ! i)"
    and mrg: "list_all2 (city_merged (merged_districts results)) cities cities'"
    by blast
  have lids: "length ids = length cities" using ids by (simp add: list_all2_lengthD)
  have idi: "ids ! i = cid" using ids i cid by (auto simp: list_all2_conv_all_nth)
  have keys: "id_keys cities = map py_str ids"
    using ids by (auto simp: id_keys_def list_all2_conv_all_nth intro!: nth_equalityI)
  have shape: "\<forall>j < length results. results ! j = [] \<or> (\<exists>v. results ! j = [(map py_str ids ! j, v)])"
  proof (intro allI impI)
    fix j assume j: "j < length results"
    then have "get_districts (ids ! j) True (responses j) = Inr (results ! j)" using res len by simp
    from get_districts_cases [OF this] show "results ! j = [] \<or> (\<exists>v. results ! j = [(map py_str ids ! j, v)])"
      using j len lids by auto
  qed
  have look: "map_of (merged_districts results) (py_str cid) =
           (case results ! i of [] \<Rightarrow> None | kv # rest \<Rightarrow> Some (snd kv))"
    using merged_lookup [of "map py_str ids" results i] shape dist keys len lids i idi by simp
  from mrg i have "city_merged (merged_districts results) (cities ! i) (cities' ! i)"
    by (simp add: list_all2_conv_all_nth)
  then obtain found where
    f: "py_dict_lookup (merged_districts results) cid = Inr found"
    and st: "py_setitem (cities ! i) ''districts'' (JArr (case found of None \<Rightarrow> [] | Some ds \<Rightarrow> ds)) = Inr (cities' ! i)"
    using cid by (auto simp: city_merged_def)
  have "(case found of None \<Rightarrow> [] | Some ds \<Rightarrow> ds) =
        (case cid of JStr s \<Rightarrow> (case results ! i of [] \<Rightarrow> [] | kv # rest \<Rightarrow> snd kv) | _ \<Rightarrow> [])"
    using f look by (cases cid) (auto split: list.splits)
  then have "py_getitem (cities' ! i) ''districts'' =
        Inr (JArr (case cid of JStr s \<Rightarrow> (case results ! i of [] \<Rightarrow> [] | kv # rest \<Rightarrow> snd kv) | _ \<Rightarrow> []))"
    using py_getitem_setitem [OF st] by simp
  moreover have "get_districts cid True (responses i) = Inr (results ! i)" using res i idi by auto
  ultimately show ?thesis by blast
qed

lemma get_districts_empty:
  assumes "json_loads t = Inr res" "py_len res = Inr 0"
  shows "get_districts city_id use_arabic t = Inr []"
proof -
  have "\<not> py_bool res" using assms(2) by (cases res) auto
  then show ?thesis using assms by (simp add: get_districts_def)
qed

lemma merge_loop_nth:
  assumes "merge_loop responses m = Inr m'" "k < length m" "m ! k = (region, cities)"
  shows "\<exists>cities'. m' ! k = (region, cities') \<and> merge_region (responses region) cities = Inr cities'"
proof -
  have "list_all2 (\<lambda>rc rc'. fst rc' = fst rc \<and> merge_region (responses (fst rc)) (snd rc) = Inr (snd rc')) m m'"
    using assms(1) by (simp add: merge_loop_Inr_iff)
  then have "fst (m' ! k) = fst (m ! k) \<and> merge_region (responses (fst (m ! k))) (snd (m ! k)) = Inr (snd (m' ! k))"
    using assms(2) by (simp add: list_all2_conv_all_nth)
  then show ?thesis using assms(3) by (cases "m' ! k") auto
qed

text \<open>
  C3, as the code has it.  A response that is not a JSON document is not recovered:
  \<^verbatim>\<open>json.loads\<close> raises, \<^verbatim>\<open>get_districts\<close> lets the error through and so does
  \<^verbatim>\<open>get_and_merge_districts\<close>.  A response that decodes to an empty list
  (or an empty dictionary or string) yields an empty result, not an error, and the city
  ends with an empty district list when the identifiers of the cities of its region are
  pairwise different as strings.  Nothing is said here about a response with an empty body.
\<close>

theorem get_districts_empty_answer:
  "get_districts city_id use_arabic Malformed_text = Inl JSONDecodeError
   \<and> (json_loads t = Inr res \<and> py_len res = Inr 0 \<longrightarrow>
        get_districts city_id use_arabic t = Inr [])
   \<and> (k < length m \<and> m ! k = (region, cities) \<and> i < length cities \<and>
        responses region i = Malformed_text \<longrightarrow>
        isl (get_and_merge_districts (Some m) responses))
   \<and> (get_and_merge_districts (Some m) responses = Inr m' \<and>
        k < length m \<and> m ! k = (region, cities) \<and> i < length cities \<and>
        json_loads (responses region i) = Inr res \<and> py_len res = Inr 0 \<and>
        distinct (id_keys cities) \<longrightarrow>
        (\<exists>cities'. m' ! k = (region, cities') \<and>
           py_getitem (cities' ! i) ''districts'' = Inr (JArr [])))"
proof (intro conjI impI)
  show "get_districts city_id use_arabic Malformed_text = Inl JSONDecodeError"
    by (simp add: get_districts_def)
next
  assume "json_loads t = Inr res \<and> py_len res = Inr 0"
  then show "get_districts city_id use_arabic t = Inr []"
    by (simp add: get_districts_empty)
next
  assume a: "k < length m \<and> m ! k = (region, cities) \<and> i < length cities \<and>
        responses region i = Malformed_text"
  show "isl (get_and_merge_districts (Some m) responses)"
  proof (cases "merge_loop responses m")
    case (Inl e)
    then show ?thesis by simp
  next
    case (Inr m'')
    from merge_loop_nth [OF Inr] a obtain cities' where
      "merge_region (responses region) cities = Inr cities'" by blast
    from merge_region_Inr [OF this] obtain ids results where
      "\<forall>i < length cities. get_districts (ids ! i) True (responses region i) = Inr (results ! i)"
      by blast
    then have "get_districts (ids ! i) True Malformed_text = Inr (results ! i)" using a by auto
    then show ?thesis by (simp add: get_districts_def)
  qed
next
  assume a: "get_and_merge_districts (Some m) responses = Inr m' \<and>
        k < length m \<and> m ! k = (region, cities) \<and> i < length cities \<and>
        json_loads (responses region i) = Inr res \<and> py_len res = Inr 0 \<and>
        distinct (id_keys cities)"
  then have "merge_loop responses m = Inr m'" by simp
  from merge_loop_nth [OF this] a obtain cities' where
    c': "m' ! k = (region, cities')" "merge_region (responses region) cities = Inr cities'" by blast
  from merge_region_Inr [OF c'(2)] a obtain cid where
    cid: "py_getitem (cities ! i) ''id'' = Inr cid"
    by (auto simp: list_all2_conv_all_nth)
  from merge_region_own_districts [OF c'(2) _ cid] a obtain r where
    r: "get_districts cid True (responses region i) = Inr r"
      "py_getitem (cities' ! i) ''districts'' =
             Inr (JArr (case cid of
                          JStr s \<Rightarrow> (case r of [] \<Rightarrow> [] | kv # rest \<Rightarrow> snd kv)
                        | _ \<Rightarrow> []))" by blast
  have "r = []" using r(1) get_districts_empty [of "responses region i" res cid True] a by simp
  then have "py_getitem (cities' ! i) ''districts'' = Inr (JArr [])"
    using r(2) by (cases cid) auto
  then show "\<exists>cities'. m' ! k = (region, cities') \<and>
           py_getitem (cities' ! i) ''districts'' = Inr (JArr [])" using c'(1) by blast
qed

theorem get_districts_empty_answer_witness:
  "get_districts (JStr ''4'') True (Json_text (JArr [])) = Inr []
   \<and> isl (get_and_merge_districts
        (Some [(''Riyadh'',
           [JObj [(''name'', JStr ''A''), (''id'', JStr ''4''), (''districts'', JArr [])],
            JObj [(''name'', JStr ''B''), (''id'', JStr ''5''), (''districts'', JArr [])]])])
        (\<lambda>region i. Malformed_text))
   \<and> get_and_merge_districts
        (Some [(''Riyadh'',
           [JObj [(''name'', JStr ''A''), (''id'', JStr ''4''), (''districts'', JArr [])],
            JObj [(''name'', JStr ''B''), (''id'', JStr ''5''), (''districts'', JArr [])]])])
        (\<lambda>region i. if i = 0 then Json_text (JArr [])
           else Json_text (JArr [JObj [(''ArabicName'', JStr ''D'')]])) =
       Inr [(''Riyadh'',
           [JObj [(''name'', JStr ''A''), (''id'', JStr ''4''), (''districts'', JArr [])],
            JObj [(''name'', JStr ''B''), (''id'', JStr ''5''), (''districts'', JArr [JStr ''D''])]])]
   \<and> (\<exists>cities'.
         [(''Riyadh'',
           [JObj [(''name'', JStr ''A''), (''id'', JStr ''4''), (''districts'', JArr [])],
            JObj [(''name'', JStr ''B''), (''id'', JStr ''5''), (''districts'', JArr [JStr ''D''])]])] ! 0
           = (''Riyadh'', cities') \<and>
         py_getitem (cities' ! 0) ''districts'' = Inr (JArr []))"
proof -
  let ?cities = "[JObj [(''name'', JStr ''A''), (''id'', JStr ''4''), (''districts'', JArr [])],
            JObj [(''name'', JStr ''B''), (''id'', JStr ''5''), (''districts'', JArr [])]]"
  let ?m = "[(''Riyadh'', ?cities)]"
  let ?resp = "\<lambda>(region :: string) (i :: nat). if i = 0 then Json_text (JArr [])
           else Json_text (JArr [JObj [(''ArabicName'', JStr ''D'')]])"
  let ?m' = "[(''Riyadh'',
           [JObj [(''name'', JStr ''A''), (''id'', JStr ''4''), (''districts'', JArr [])],
            JObj [(''name'', JStr ''B''), (''id'', JStr ''5''), (''districts'', JArr [JStr ''D''])]])]"
  have run: "get_and_merge_districts (Some ?m) ?resp = Inr ?m'"
    by (simp add: merge_region_def get_districts_def merged_districts_def dict_update_all_def)
  have dist: "distinct (id_keys ?cities)"
    by (simp add: id_keys_def)
  note a = get_districts_empty_answer
    [where city_id = "JStr ''4''" and use_arabic = True and t = "Json_text (JArr [])"
       and res = "JArr []" and k = 0 and m = ?m and region = "''Riyadh''" and cities = ?cities
       and i = 0 and responses = ?resp and m' = ?m']
  note b = get_districts_empty_answer
    [where city_id = "JStr ''4''" and use_arabic = True and t = "Json_text (JArr [])"
       and res = "JArr []" and k = 0 and m = ?m and region = "''Riyadh''" and cities = ?cities
       and i = 0 and responses = "\<lambda>region i. Malformed_text" and m' = ?m']
  have 1: "get_districts (JStr ''4'') True (Json_text (JArr [])) = Inr []"
    using a by simp
  have 2: "isl (get_and_merge_districts (Some ?m) (\<lambda>region i. Malformed_text))"
    using b by simp
  have 3: "\<exists>cities'. ?m' ! 0 = (''Riyadh'', cities') \<and>
         py_getitem (cities' ! 0) ''districts'' = Inr (JArr [])"
    using a run dist by simp
  show ?thesis using 1 2 run 3 by blast
qed

text \<open>
  The claim as stated fails: a response body that does not parse makes the fetch, and the
  whole merge stage, raise.
\<close>

theorem get_districts_malformed_counterexample:
  "get_districts (JInt 1) True Malformed_text = Inl JSONDecodeError
   \<and> get_and_merge_districts
       (Some [(''Riyadh'',
          [JObj [(''name'', JStr ''A''), (''id'', JInt 1), (''districts'', JArr [])]])])
       (\<lambda>region i. Malformed_text) = Inl JSONDecodeError"
  by (simp add: merge_region_def get_districts_def)

text \<open>
  C1 fails on the code.  \<^verbatim>\<open>get_districts\<close> files the districts of a city under
  \<^verbatim>\<open>str(city_id)\<close>; the merge loop asks for \<^verbatim>\<open>city['id']\<close> itself.  With a numeric
  identifier the fetch returns a district and the city still ends with none.
\<close>

theorem merge_drops_districts_of_numeric_id:
  "get_districts (JInt 3) True
     (Json_text (JArr [JObj [(''ArabicName'', JStr ''D1''), (''EnglishName'', JStr ''E1'')]])) =
     Inr [(''3'', [JStr ''D1''])]
   \<and> get_and_merge_districts
       (Some [(''Riyadh'',
          [JObj [(''name'', JStr ''A''), (''id'', JInt 3), (''districts'', JArr [])]])])
       (\<lambda>region i. Json_text
          (JArr [JObj [(''ArabicName'', JStr ''D1''), (''EnglishName'', JStr ''E1'')]])) =
     Inr [(''Riyadh'',
          [JObj [(''name'', JStr ''A''), (''id'', JInt 3), (''districts'', JArr [])]])]"
  by (simp add: merge_region_def get_districts_def merged_districts_def dict_update_all_def
      str_int_def digit_char_def)

text \<open>
  With string identifiers that are pairwise different within the region, every city does
  end with the districts of its own fetch: see \<open>merge_region_own_districts\<close> above.
\<close>

lemma merge_region_districts_origin:
  assumes run: "merge_region responses cities = Inr cities'"
    and c: "city' \<in> set cities'"
    and ds: "py_getitem city' ''districts'' = Inr (JArr ds)"
    and d: "d \<in> set ds"
  shows "\<exists>i res districts district.
           json_loads (responses i) = Inr res \<and> py_iter res = Inr districts \<and>
           district \<in> set districts \<and> py_getitem district ''ArabicName'' = Inr d"
proof -
  from merge_region_Inr [OF run] obtain ids results where
    len: "length results = length cities"
    and res: "\<forall>i < length cities. get_districts (ids ! i) True (responses i) = Inr (results ! i)"
    and mrg: "list_all2 (city_merged (merged_districts results)) cities cities'"
    by blast
  from c obtain i where i: "i < length cities'" "cities' ! i = city'"
    by (auto simp: in_set_conv_nth)
  then have "city_merged (merged_districts results) (cities ! i) city'"
    using mrg by (auto simp: list_all2_conv_all_nth)
  then obtain cid found where
    f: "py_dict_lookup (merged_districts results) cid = Inr found"
    and st: "py_setitem (cities ! i) ''districts'' (JArr (case found of None \<Rightarrow> [] | Some ds \<Rightarrow> ds)) = Inr city'"
    by (auto simp: city_merged_def)
  have "(case found of None \<Rightarrow> [] | Some ds \<Rightarrow> ds) = ds"
    using py_getitem_setitem [OF st] ds by simp
  then have found: "found = Some ds" using d by (cases found) auto
  then obtain s where s: "map_of (merged_districts results) s = Some ds"
    using f by (cases cid) auto
  then have "(s, ds) \<in> set (concat results)"
    unfolding merged_districts_def by (rule dict_update_all_member)
  then obtain r where "r \<in> set results" "(s, ds) \<in> set r" by auto
  then obtain j where j: "j < length results" "(s, ds) \<in> set (results ! j)"
    by (auto simp: in_set_conv_nth)
  then have g: "get_districts (ids ! j) True (responses j) = Inr (results ! j)"
    using res len by simp
  from get_districts_cases [OF g] j(2) obtain res' districts where
    l: "json_loads (responses j) = Inr res'" "py_iter res' = Inr districts"
       "list_all2 (\<lambda>d n. py_getitem d ''ArabicName'' = Inr n) districts ds"
    by auto
  from d obtain n where n: "n < length ds" "ds ! n = d" by (auto simp: in_set_conv_nth)
  then have "py_getitem (districts ! n) ''ArabicName'' = Inr d" "n < length districts"
    using l(3) by (auto simp: list_all2_conv_all_nth)
  then have "districts ! n \<in> set districts \<and> py_getitem (districts ! n) ''ArabicName'' = Inr d"
    by simp
  then show ?thesis using l(1,2) by blast
qed

text \<open>
  C10.  \<^verbatim>\<open>get_and_merge_districts\<close> calls \<^verbatim>\<open>get_districts\<close> with the default flag,
  so whichever flag \<^verbatim>\<open>get_cities\<close> was given, every district name in the merged
  mapping is the \<^verbatim>\<open>ArabicName\<close> field of an entry of a response for that region.
\<close>

theorem merged_districts_are_arabic_names:
  assumes "get_cities regions use_arabic t = Inr (Some m, logged)"
    and "get_and_merge_districts (Some m) responses = Inr m'"
    and "(region, cities') \<in> set m'"
    and "city' \<in> set cities'"
    and "py_getitem city' ''districts'' = Inr (JArr ds)"
    and "d \<in> set ds"
  shows "\<exists>i res districts district.
           json_loads (responses region i) = Inr res \<and> py_iter res = Inr districts \<and>
           district \<in> set districts \<and> py_getitem district ''ArabicName'' = Inr d"
proof -
  have "list_all2 (\<lambda>rc rc'. fst rc' = fst rc \<and>
          merge_region (responses (fst rc)) (snd rc) = Inr (snd rc')) m m'"
    using assms(2) by (simp add: merge_loop_Inr_iff)
  moreover obtain k where "k < length m'" "m' ! k = (region, cities')"
    using assms(3) by (auto simp: in_set_conv_nth)
  ultimately have "merge_region (responses region) (snd (m ! k)) = Inr cities'"
    by (auto simp: list_all2_conv_all_nth)
  from merge_region_districts_origin [OF this assms(4,5,6)] show ?thesis .
qed

theorem merged_districts_are_arabic_names_witness:
  "get_cities REGIONS False
     (Json_text (JArr [JObj [(''fkEmirateID'', JStr ''1''), (''ArabicName'', JStr ''Ar-Riyad''),
        (''EnglishName'', JStr ''Riyadh City''), (''pkCityID'', JStr ''3'')]])) =
     Inr (Some [(''Riyadh'',
        [JObj [(''name'', JStr ''Riyadh City''), (''id'', JStr ''3''), (''districts'', JArr [])]])], [])
   \<and> get_and_merge_districts
       (Some [(''Riyadh'',
        [JObj [(''name'', JStr ''Riyadh City''), (''id'', JStr ''3''), (''districts'', JArr [])]])])
       (\<lambda>region i. Json_text
          (JArr [JObj [(''ArabicName'', JStr ''Al-Olaya''), (''EnglishName'', JStr ''Olaya'')]])) =
     Inr [(''Riyadh'',
        [JObj [(''name'', JStr ''Riyadh City''), (''id'', JStr ''3''),
               (''districts'', JArr [JStr ''Al-Olaya''])]])]
   \<and> (\<exists>i res districts district.
         json_loads (Json_text
           (JArr [JObj [(''ArabicName'', JStr ''Al-Olaya''), (''EnglishName'', JStr ''Olaya'')]])) =
           Inr res \<and>
         py_iter res = Inr districts \<and> district \<in> set districts \<and>
         py_getitem district ''ArabicName'' = Inr (JStr ''Al-Olaya''))"
proof -
  let ?t = "Json_text (JArr [JObj [(''fkEmirateID'', JStr ''1''), (''ArabicName'', JStr ''Ar-Riyad''),
        (''EnglishName'', JStr ''Riyadh City''), (''pkCityID'', JStr ''3'')]])"
  let ?m = "[(''Riyadh'',
        [JObj [(''name'', JStr ''Riyadh City''), (''id'', JStr ''3''), (''districts'', JArr [])]])]"
  let ?resp = "\<lambda>(region :: string) (i :: nat). Json_text
          (JArr [JObj [(''ArabicName'', JStr ''Al-Olaya''), (''EnglishName'', JStr ''Olaya'')]])"
  let ?city' = "JObj [(''name'', JStr ''Riyadh City''), (''id'', JStr ''3''),
               (''districts'', JArr [JStr ''Al-Olaya''])]"
  let ?m' = "[(''Riyadh'', [?city'])]"
  have 1: "get_cities REGIONS False ?t = Inr (Some ?m, [])"
    by (simp add: get_cities_def REGIONS_def dict_update_all_def)
  have 2: "get_and_merge_districts (Some ?m) ?resp = Inr ?m'"
    by (simp add: merge_region_def get_districts_def merged_districts_def dict_update_all_def)
  have 3: "(''Riyadh'', [?city']) \<in> set ?m'" "?city' \<in> set [?city']"
    "py_getitem ?city' ''districts'' = Inr (JArr [JStr ''Al-Olaya''])"
    "JStr ''Al-Olaya'' \<in> set [JStr ''Al-Olaya'']"
    by simp_all
  from merged_districts_are_arabic_names [OF 1 2 3]
  have "\<exists>i res districts district.
         json_loads (?resp ''Riyadh'' i) = Inr res \<and>
         py_iter res = Inr districts \<and> district \<in> set districts \<and>
         py_getitem district ''ArabicName'' = Inr (JStr ''Al-Olaya'')" .
  then show ?thesis using 1 2 by simp
qed

section \<open>Grouping of the cities\<close>

lemma values_dict_set: "snd ` set (dict_set d k v) \<subseteq> insert v (snd ` set d)"
  by (induction d k v rule: dict_set.induct) auto

lemma cities_of_dict_set:
  "cities_of (dict_set m k v) r = (if r = k then v else cities_of m r)"
  by (simp add: cities_of_def map_of_dict_set)

lemma append_to_region:
  "(case map_of m r of
      Some cities \<Rightarrow> dict_set m r (cities @ [x])
    | None \<Rightarrow> dict_set m r [x]) = dict_set m r (cities_of m r @ [x])"
  by (simp add: cities_of_def split: option.splits)

lemma py_dict_lookup_hashable:
  "hashable fk \<Longrightarrow>
   py_dict_lookup regions fk = Inr (case fk of JStr s \<Rightarrow> map_of regions s | _ \<Rightarrow> None)"
  by (cases fk) (auto simp: hashable_def)

lemma cities_loop_step:
  assumes "listed_city use_arabic city"
  shows "cities_loop regions use_arabic (city # data) (m, logged) =
           (case city_region regions city of
              None \<Rightarrow> cities_loop regions use_arabic data (m, logged @ [Log_warning city])
            | Some r \<Rightarrow>
                cities_loop regions use_arabic data
                  (dict_set m r (cities_of m r @ [city_record use_arabic city]), logged))"
proof -
  from assms obtain fk nm pk where
    f: "py_getitem city ''fkEmirateID'' = Inr fk" "hashable fk"
       "py_getitem city (if use_arabic then ''ArabicName'' else ''EnglishName'') = Inr nm"
       "py_getitem city ''pkCityID'' = Inr pk"
    unfolding listed_city_def item_def
    by (cases "py_getitem city ''fkEmirateID''";
        cases "py_getitem city (if use_arabic then ''ArabicName'' else ''EnglishName'')";
        cases "py_getitem city ''pkCityID''") auto
  have r: "city_region regions city = (case fk of JStr s \<Rightarrow> map_of regions s | _ \<Rightarrow> None)"
    using f(1) by (simp add: city_region_def item_def)
  have rec: "city_record use_arabic city = JObj [(''name'', nm), (''id'', pk), (''districts'', JArr [])]"
    using f(3,4) by (simp add: city_record_def item_def)
  show ?thesis
    unfolding cities_loop.simps f(1) sum.case py_dict_lookup_hashable [OF f(2)] r [symmetric]
    by (cases "city_region regions city") (simp_all add: f(3,4) rec append_to_region Let_def)
qed

lemma cities_loop_result:
  assumes "\<forall>city \<in> set data. listed_city use_arabic city"
    and "distinct (map fst m0)" and "[] \<notin> snd ` set m0"
  shows "\<exists>m1. cities_loop regions use_arabic data (m0, logged0) =
              Inr (m1, logged0 @ map Log_warning (filter (\<lambda>c. city_region regions c = None) data))
          \<and> distinct (map fst m1) \<and> [] \<notin> snd ` set m1
          \<and> (\<forall>r. cities_of m1 r =
                cities_of m0 r @
                map (city_record use_arabic) (filter (\<lambda>c. city_region regions c = Some r) data))
          \<and> fst ` set m1 \<subseteq> fst ` set m0 \<union> ran (map_of regions)"
  using assms
proof (induction data arbitrary: m0 logged0)
  case Nil
  then show ?case by simp
next
  case (Cons city data)
  have listed: "listed_city use_arabic city" "\<forall>c \<in> set data. listed_city use_arabic c"
    using Cons.prems(1) by simp_all
  show ?case
  proof (cases "city_region regions city")
    case None
    from Cons.IH [OF listed(2) Cons.prems(2,3), of "logged0 @ [Log_warning city]"]
    show ?thesis using None by (simp add: cities_loop_step [OF listed(1)] del: cities_loop.simps)
  next
    case (Some r)
    let ?m = "dict_set m0 r (cities_of m0 r @ [city_record use_arabic city])"
    have d: "distinct (map fst ?m)" using Cons.prems(2) by (rule distinct_dict_set)
    have e: "[] \<notin> snd ` set ?m"
      using values_dict_set [of m0 r "cities_of m0 r @ [city_record use_arabic city]"] Cons.prems(3)
      by auto
    have rr: "r \<in> ran (map_of regions)"
      using Some by (auto simp: city_region_def ran_def split: json.splits)
    from Cons.IH [OF listed(2) d e, of logged0] obtain m1 where
      m1: "cities_loop regions use_arabic data (?m, logged0) =
              Inr (m1, logged0 @ map Log_warning (filter (\<lambda>c. city_region regions c = None) data))"
        "distinct (map fst m1)" "[] \<notin> snd ` set m1"
        "\<forall>r'. cities_of m1 r' = cities_of ?m r' @
                map (city_record use_arabic) (filter (\<lambda>c. city_region regions c = Some r') data)"
        "fst ` set m1 \<subseteq> fst ` set ?m \<union> ran (map_of regions)"
      by blast
    have "cities_loop regions use_arabic (city # data) (m0, logged0) =
              Inr (m1, logged0 @ map Log_warning (filter (\<lambda>c. city_region regions c = None) (city # data)))"
      using m1(1) Some by (simp add: cities_loop_step [OF listed(1)] del: cities_loop.simps)
    moreover have "\<forall>r'. cities_of m1 r' = cities_of m0 r' @
                map (city_record use_arabic) (filter (\<lambda>c. city_region regions c = Some r') (city # data))"
      using m1(4) Some by (simp add: cities_of_dict_set)
    moreover have "fst ` set m1 \<subseteq> fst ` set m0 \<union> ran (map_of regions)"
      using m1(5) rr by (auto simp: keys_dict_set)
    ultimately show ?thesis using m1(2,3) by blast
  qed
qed

text \<open>
  C5.  For a listing of cities (entries with the region reference, the selected name and
  the identifier), \<^verbatim>\<open>get_cities\<close> returns a mapping in which the cities filed under a
  region name are exactly the cities whose region reference is a key of the catalog naming
  that region, in arrival order.  A city whose region reference is no key of the catalog
  is in no list and is logged with a warning, once each.  Every region of the mapping is
  a region of the catalog and has at least one city.
\<close>

theorem get_cities_groups_by_catalog_region:
  assumes "json_loads t = Inr (JArr data)"
    and "\<forall>city \<in> set data. listed_city use_arabic city"
  shows "\<exists>m. get_cities regions use_arabic t =
             Inr (Some m, map Log_warning (filter (\<lambda>c. city_region regions c = None) data))
          \<and> distinct (map fst m)
          \<and> (\<forall>r. cities_of m r =
                map (city_record use_arabic) (filter (\<lambda>c. city_region regions c = Some r) data))
          \<and> (\<forall>(r, cities) \<in> set m. cities \<noteq> [] \<and> r \<in> ran (map_of regions))"
proof -
  have t: "t \<noteq> Empty_text" using assms(1) by auto
  from cities_loop_result [OF assms(2), of "[]" regions "[]"] obtain m where
    m: "cities_loop regions use_arabic data ([], []) =
              Inr (m, map Log_warning (filter (\<lambda>c. city_region regions c = None) data))"
       "distinct (map fst m)" "[] \<notin> snd ` set m"
       "\<forall>r. cities_of m r =
                map (city_record use_arabic) (filter (\<lambda>c. city_region regions c = Some r) data)"
       "fst ` set m \<subseteq> ran (map_of regions)"
    by (auto simp: cities_of_def)
  have "get_cities regions use_arabic t =
             Inr (Some m, map Log_warning (filter (\<lambda>c. city_region regions c = None) data))"
    using t assms(1) m(1) by (simp add: get_cities_def)
  moreover have "\<forall>(r, cities) \<in> set m. cities \<noteq> [] \<and> r \<in> ran (map_of regions)"
    using m(3,5) by force
  ultimately show ?thesis using m(2,4) by blast
qed

theorem get_cities_groups_by_catalog_region_witness:
  "\<exists>m. get_cities REGIONS True
          (Json_text (JArr
            [JObj [(''fkEmirateID'', JStr ''1''), (''ArabicName'', JStr ''A''),
                   (''EnglishName'', JStr ''EA''), (''pkCityID'', JInt 3)],
             JObj [(''fkEmirateID'', JStr ''2''), (''ArabicName'', JStr ''B''),
                   (''EnglishName'', JStr ''EB''), (''pkCityID'', JInt 4)],
             JObj [(''fkEmirateID'', JStr ''99''), (''ArabicName'', JStr ''C''),
                   (''EnglishName'', JStr ''EC''), (''pkCityID'', JInt 5)],
             JObj [(''fkEmirateID'', JStr ''1''), (''ArabicName'', JStr ''D''),
                   (''EnglishName'', JStr ''ED''), (''pkCityID'', JInt 6)]])) =
        Inr (Some m,
             [Log_warning
               (JObj [(''fkEmirateID'', JStr ''99''), (''ArabicName'', JStr ''C''),
                      (''EnglishName'', JStr ''EC''), (''pkCityID'', JInt 5)])])
      \<and> cities_of m ''Riyadh'' =
          [JObj [(''name'', JStr ''A''), (''id'', JInt 3), (''districts'', JArr [])],
           JObj [(''name'', JStr ''D''), (''id'', JInt 6), (''districts'', JArr [])]]
      \<and> cities_of m ''Makkah'' =
          [JObj [(''name'', JStr ''B''), (''id'', JInt 4), (''districts'', JArr [])]]
      \<and> cities_of m ''Asir'' = []"
proof -
  let ?data = "[JObj [(''fkEmirateID'', JStr ''1''), (''ArabicName'', JStr ''A''),
                   (''EnglishName'', JStr ''EA''), (''pkCityID'', JInt 3)],
             JObj [(''fkEmirateID'', JStr ''2''), (''ArabicName'', JStr ''B''),
                   (''EnglishName'', JStr ''EB''), (''pkCityID'', JInt 4)],
             JObj [(''fkEmirateID'', JStr ''99''), (''ArabicName'', JStr ''C''),
                   (''EnglishName'', JStr ''EC''), (''pkCityID'', JInt 5)],
             JObj [(''fkEmirateID'', JStr ''1''), (''ArabicName'', JStr ''D''),
                   (''EnglishName'', JStr ''ED''), (''pkCityID'', JInt 6)]]"
  have h1: "json_loads (Json_text (JArr ?data)) = Inr (JArr ?data)"
    by (simp add: dict_update_all_def)
  have h2: "\<forall>city \<in> set ?data. listed_city True city"
    by (simp add: listed_city_def item_def hashable_def)
  from get_cities_groups_by_catalog_region [OF h1 h2, of REGIONS] obtain m where
    m: "get_cities REGIONS True (Json_text (JArr ?data)) =
             Inr (Some m, map Log_warning (filter (\<lambda>c. city_region REGIONS c = None) ?data))"
       "\<forall>r. cities_of m r =
                map (city_record True) (filter (\<lambda>c. city_region REGIONS c = Some r) ?data)"
    by blast
  have "map Log_warning (filter (\<lambda>c. city_region REGIONS c = None) ?data) =
      [Log_warning
               (JObj [(''fkEmirateID'', JStr ''99''), (''ArabicName'', JStr ''C''),
                      (''EnglishName'', JStr ''EC''), (''pkCityID'', JInt 5)])]"
    by (simp add: city_region_def item_def REGIONS_def)
  moreover have "map (city_record True) (filter (\<lambda>c. city_region REGIONS c = Some ''Riyadh'') ?data) =
          [JObj [(''name'', JStr ''A''), (''id'', JInt 3), (''districts'', JArr [])],
           JObj [(''name'', JStr ''D''), (''id'', JInt 6), (''districts'', JArr [])]]"
    by (simp add: city_region_def item_def REGIONS_def city_record_def)
  moreover have "map (city_record True) (filter (\<lambda>c. city_region REGIONS c = Some ''Makkah'') ?data) =
          [JObj [(''name'', JStr ''B''), (''id'', JInt 4), (''districts'', JArr [])]]"
    by (simp add: city_region_def item_def REGIONS_def city_record_def)
  moreover have "map (city_record True) (filter (\<lambda>c. city_region REGIONS c = Some ''Asir'') ?data) = []"
    by (simp add: city_region_def item_def REGIONS_def city_record_def)
  ultimately show ?thesis using m by metis
qed

section \<open>Properties of the Exporter: the JSON document\<close>

lemma loads_value_id: "is_py_value v \<Longrightarrow> loads_value v = v"
proof (induction v)
  case (JArr xs)
  then show ?case by (simp add: map_idI)
next
  case (JObj d)
  have "map (\<lambda>(k, v). (k, loads_value v)) d = d"
  proof (rule map_idI)
    fix kv assume kv: "kv \<in> set d"
    obtain k v where [simp]: "kv = (k, v)" by (cases kv)
    have "v \<in> Basic_BNFs.snds kv" by simp
    then have "loads_value v = v" using JObj.IH [OF kv] JObj.prems kv by auto
    then show "(case kv of (k, v) \<Rightarrow> (k, loads_value v)) = kv" by simp
  qed
  then show ?case using JObj.prems by (simp add: dict_update_all_distinct)
qed simp_all

lemma values_dict_update_all:
  "snd ` set (dict_update_all d items) \<subseteq> snd ` set d \<union> snd ` set items"
proof (induction items arbitrary: d)
  case Nil
  then show ?case by simp
next
  case (Cons kv items)
  have "snd ` set (dict_update_all d (kv # items)) \<subseteq>
        snd ` set (dict_set d (fst kv) (snd kv)) \<union> snd ` set items"
    using Cons.IH by simp
  also have "\<dots> \<subseteq> insert (snd kv) (snd ` set d) \<union> snd ` set items"
    using values_dict_set [of d "fst kv" "snd kv"] by blast
  also have "\<dots> = snd ` set d \<union> snd ` set (kv # items)" by auto
  finally show ?case .
qed

lemma is_py_value_loads: "is_py_value (loads_value v)"
proof (induction v)
  case (JArr xs)
  then show ?case by simp
next
  case (JObj d)
  define items where "items = map (\<lambda>(k, v). (k, loads_value v)) d"
  have vals: "is_py_value x" if "x \<in> snd ` set items" for x
  proof -
    from that obtain k v where kv: "(k, v) \<in> set d" "x = loads_value v"
      by (auto simp: items_def)
    then have "v \<in> Basic_BNFs.snds (k, v)" by simp
    then show "is_py_value x" using JObj.IH [OF kv(1)] kv(2) by simp
  qed
  have "snd ` set (dict_update_all [] items) \<subseteq> snd ` set items"
    using values_dict_update_all [of "[]" items] by simp
  then have "\<forall>kv \<in> set (dict_update_all [] items). is_py_value (snd kv)"
    using vals by blast
  moreover have "distinct (map fst (dict_update_all [] items))"
    by (rule distinct_dict_update_all) simp
  ultimately show ?case by (simp add: items_def)
qed simp_all

lemma is_py_value_mapping_json: "is_py_mapping m \<Longrightarrow> is_py_value (mapping_json m)"
  by (auto simp: is_py_mapping_def mapping_json_def comp_def case_prod_unfold)

lemma is_py_value_getitem:
  "is_py_value v \<Longrightarrow> py_getitem v k = Inr x \<Longrightarrow> is_py_value x"
  by (cases v) (auto split: option.splits dest!: map_of_SomeD)

lemma is_py_value_iter:
  "is_py_value v \<Longrightarrow> py_iter v = Inr xs \<Longrightarrow> x \<in> set xs \<Longrightarrow> is_py_value x"
  by (cases v) auto

lemma in_dict_setD: "kv \<in> set (dict_set d k v) \<Longrightarrow> snd kv = v \<or> kv \<in> set d"
  by (induction d k v rule: dict_set.induct) (auto split: if_splits)

lemma is_py_value_setitem:
  assumes "is_py_value c" "is_py_value v" "py_setitem c k v = Inr c'"
  shows "is_py_value c'"
proof -
  from assms(3) obtain d where d: "c = JObj d" "c' = JObj (dict_set d k v)" by (cases c) auto
  have "\<forall>kv \<in> set (dict_set d k v). is_py_value (snd kv)"
    using assms(1,2) d(1) by (auto dest!: in_dict_setD)
  then show ?thesis using assms(1) d by (simp add: distinct_dict_set)
qed

lemma is_py_mapping_dict_set:
  assumes "is_py_mapping m" "\<forall>c \<in> set cities. is_py_value c"
  shows "is_py_mapping (dict_set m r cities)"
proof -
  have "\<forall>rc \<in> set (dict_set m r cities). \<forall>city \<in> set (snd rc). is_py_value city"
    using assms by (auto simp: is_py_mapping_def dest!: in_dict_setD)
  then show ?thesis using assms(1) by (simp add: is_py_mapping_def distinct_dict_set)
qed

lemma is_py_mapping_lookup:
  "is_py_mapping m \<Longrightarrow> map_of m r = Some cities \<Longrightarrow> c \<in> set cities \<Longrightarrow> is_py_value c"
  by (auto simp: is_py_mapping_def dest!: map_of_SomeD)

lemma cities_loop_py:
  assumes "cities_loop regions use_arabic data (m0, logged0) = Inr (m1, logged1)"
    and "\<forall>c \<in> set data. is_py_value c" and "is_py_mapping m0"
  shows "is_py_mapping m1"
  using assms
proof (induction data arbitrary: m0 logged0)
  case Nil
  then show ?case by simp
next
  case (Cons city data)
  from Cons.prems(1) obtain fk found where
    fk: "py_getitem city ''fkEmirateID'' = Inr fk" "py_dict_lookup regions fk = Inr found"
    by (auto split: sum.splits)
  have py: "is_py_value city" "\<forall>c \<in> set data. is_py_value c" using Cons.prems(2) by simp_all
  show ?case
  proof (cases found)
    case None
    then have "cities_loop regions use_arabic data (m0, logged0 @ [Log_warning city]) = Inr (m1, logged1)"
      using Cons.prems(1) fk by simp
    from Cons.IH [OF this py(2) Cons.prems(3)] show ?thesis .
  next
    case (Some r)
    from Cons.prems(1) fk Some obtain nm pk where
      f: "py_getitem city (if use_arabic then ''ArabicName'' else ''EnglishName'') = Inr nm"
         "py_getitem city ''pkCityID'' = Inr pk"
      by (auto split: sum.splits)
    let ?rec = "JObj [(''name'', nm), (''id'', pk), (''districts'', JArr [])]"
    let ?m = "(case map_of m0 r of
                 Some cities \<Rightarrow> dict_set m0 r (cities @ [?rec])
               | None \<Rightarrow> dict_set m0 r [?rec])"
    have run: "cities_loop regions use_arabic data (?m, logged0) = Inr (m1, logged1)"
      using Cons.prems(1) fk Some f by (simp add: Let_def)
    have rec: "is_py_value ?rec"
      using is_py_value_getitem [OF py(1) f(1)] is_py_value_getitem [OF py(1) f(2)] by simp
    have "is_py_mapping ?m"
    proof (cases "map_of m0 r")
      case None
      then show ?thesis using is_py_mapping_dict_set [OF Cons.prems(3), of "[?rec]" r] rec by simp
    next
      case (Some cities)
      have "\<forall>c \<in> set (cities @ [?rec]). is_py_value c"
        using is_py_mapping_lookup [OF Cons.prems(3) Some] rec by auto
      from is_py_mapping_dict_set [OF Cons.prems(3) this, of r] show ?thesis using Some by simp
    qed
    from Cons.IH [OF run py(2) this] show ?thesis .
  qed
qed

lemma get_cities_py:
  assumes "get_cities regions use_arabic t = Inr (Some m, logged)"
  shows "is_py_mapping m"
proof -
  from assms obtain doc data where
    d: "t = Json_text doc" "py_iter (loads_value doc) = Inr data"
       "cities_loop regions use_arabic data ([], []) = Inr (m, logged)"
    by (cases t) (auto simp: get_cities_def split: sum.splits if_splits)
  have "\<forall>c \<in> set data. is_py_value c"
    using is_py_value_iter [OF is_py_value_loads d(2)] by blast
  from cities_loop_py [OF d(3) this] show ?thesis by (simp add: is_py_mapping_def)
qed

lemma get_districts_py:
  assumes "get_districts city_id use_arabic t = Inr r" "(k, names) \<in> set r" "n \<in> set names"
  shows "is_py_value n"
proof -
  from get_districts_cases [OF assms(1)] assms(2) obtain res districts where
    l: "json_loads t = Inr res" "py_iter res = Inr districts"
       "list_all2 (\<lambda>d n. py_getitem d (if use_arabic then ''ArabicName'' else ''EnglishName'') = Inr n)
          districts names"
    by auto
  from l(1) have res: "is_py_value res" by (cases t) (auto simp: is_py_value_loads)
  from assms(3) obtain i where i: "i < length names" "names ! i = n" by (auto simp: in_set_conv_nth)
  then have g: "py_getitem (districts ! i) (if use_arabic then ''ArabicName'' else ''EnglishName'') = Inr n"
    and il: "i < length districts"
    using l(3) by (auto simp: list_all2_conv_all_nth)
  have "is_py_value (districts ! i)" using is_py_value_iter [OF res l(2)] il by simp
  from is_py_value_getitem [OF this g] show ?thesis .
qed

lemma merge_region_py:
  assumes run: "merge_region responses cities = Inr cities'"
    and py: "\<forall>c \<in> set cities. is_py_value c"
  shows "\<forall>c' \<in> set cities'. is_py_value c'"
proof
  fix c' assume "c' \<in> set cities'"
  then obtain i where i: "i < length cities'" "cities' ! i = c'" by (auto simp: in_set_conv_nth)
  from merge_region_Inr [OF run] obtain ids results where
    len: "length results = length cities"
    and res: "\<forall>i < length cities. get_districts (ids ! i) True (responses i) = Inr (results ! i)"
    and mrg: "list_all2 (city_merged (merged_districts results)) cities cities'"
    by blast
  from mrg i have cm: "city_merged (merged_districts results) (cities ! i) c'" and il: "i < length cities"
    by (auto simp: list_all2_conv_all_nth)
  then obtain cid found where
    f: "py_dict_lookup (merged_districts results) cid = Inr found"
    and st: "py_setitem (cities ! i) ''districts'' (JArr (case found of None \<Rightarrow> [] | Some ds \<Rightarrow> ds)) = Inr c'"
    by (auto simp: city_merged_def)
  have "is_py_value (JArr (case found of None \<Rightarrow> [] | Some ds \<Rightarrow> ds))"
  proof (cases found)
    case None
    then show ?thesis by simp
  next
    case (Some ds)
    then obtain s where "map_of (merged_districts results) s = Some ds"
      using f by (cases cid) auto
    then have "(s, ds) \<in> set (concat results)"
      unfolding merged_districts_def by (rule dict_update_all_member)
    then obtain r where "r \<in> set results" "(s, ds) \<in> set r" by auto
    then obtain j where j: "j < length results" "(s, ds) \<in> set (results ! j)"
      by (auto simp: in_set_conv_nth)
    then have "get_districts (ids ! j) True (responses j) = Inr (results ! j)" using res len by simp
    from get_districts_py [OF this j(2)] show ?thesis using Some by simp
  qed
  moreover have "is_py_value (cities ! i)" using py il by simp
  ultimately show "is_py_value c'" using st by (blast intro: is_py_value_setitem)
qed

lemma merge_loop_py:
  assumes "merge_loop responses m = Inr m'" "is_py_mapping m"
  shows "is_py_mapping m'"
proof -
  have l: "list_all2 (\<lambda>rc rc'. fst rc' = fst rc \<and>
          merge_region (responses (fst rc)) (snd rc) = Inr (snd rc')) m m'"
    using assms(1) by (simp add: merge_loop_Inr_iff)
  then have "map fst m' = map fst m"
    by (auto simp: list_all2_conv_all_nth intro!: nth_equalityI)
  moreover have "\<forall>rc' \<in> set m'. \<forall>city \<in> set (snd rc'). is_py_value city"
  proof
    fix rc' assume "rc' \<in> set m'"
    then obtain k where k: "k < length m'" "m' ! k = rc'" by (auto simp: in_set_conv_nth)
    then have "merge_region (responses (fst (m ! k))) (snd (m ! k)) = Inr (snd rc')" "k < length m"
      using l by (auto simp: list_all2_conv_all_nth)
    moreover have "\<forall>c \<in> set (snd (m ! k)). is_py_value c"
      using assms(2) \<open>k < length m\<close> by (auto simp: is_py_mapping_def)
    ultimately show "\<forall>city \<in> set (snd rc'). is_py_value city" by (blast dest: merge_region_py)
  qed
  ultimately show ?thesis using assms(2) by (simp add: is_py_mapping_def)
qed

lemma pipeline_data_is_py_mapping:
  assumes "get_cities regions use_arabic t = Inr (Some m, logged)"
    and "get_and_merge_districts (Some m) responses = Inr res_data"
  shows "is_py_mapping res_data"
  using merge_loop_py [of responses m res_data] get_cities_py [OF assms(1)] assms(2) by simp

text \<open>
  The structure \<^verbatim>\<open>main\<close> serialises is always such a mapping: see
  \<open>pipeline_data_is_py_mapping\<close>.
\<close>

text \<open>
  C8.  \<^verbatim>\<open>json.dumps\<close> writes the regions, the cities of a region and the districts of a
  city in the order of the structure in memory, and \<^verbatim>\<open>json.loads\<close> rebuilds them in
  document order.  So the document \<^verbatim>\<open>main\<close> writes reads back as the same mapping, with
  the same region order, city order and district order, and \<^verbatim>\<open>save_to_excel\<close> renders
  exactly its items in that order.
\<close>

theorem json_round_trip_keeps_order:
  assumes "is_py_mapping m"
  shows "json_loads (json_dumps (mapping_json m)) =
           Inr (JObj (map (\<lambda>(region, cities). (region, JArr cities)) m))
         \<and> save_to_excel save_path json_source
             (fs(json_source \<mapsto> Text_file (json_dumps (mapping_json m)))) =
           (case write_sheets 1 (map (\<lambda>(region, cities). (region, JArr cities)) m) Workbook of
              Inl e \<Rightarrow> Inl e
            | Inr workbook \<Rightarrow>
                Inr ((fs(json_source \<mapsto> Text_file (json_dumps (mapping_json m))))
                       (save_path \<mapsto> Xlsx_file workbook)))"
proof -
  have "loads_value (mapping_json m) = mapping_json m"
    using assms by (simp add: loads_value_id is_py_value_mapping_json)
  then have l: "json_loads (json_dumps (mapping_json m)) = Inr (mapping_json m)"
    by (simp add: json_dumps_def)
  have "json_loads (json_dumps (mapping_json m)) =
           Inr (JObj (map (\<lambda>(region, cities). (region, JArr cities)) m))"
    using l by (simp add: mapping_json_def)
  moreover have "save_to_excel save_path json_source
             (fs(json_source \<mapsto> Text_file (json_dumps (mapping_json m)))) =
           (case write_sheets 1 (map (\<lambda>(region, cities). (region, JArr cities)) m) Workbook of
              Inl e \<Rightarrow> Inl e
            | Inr workbook \<Rightarrow>
                Inr ((fs(json_source \<mapsto> Text_file (json_dumps (mapping_json m))))
                       (save_path \<mapsto> Xlsx_file workbook)))"
    using l by (simp add: save_to_excel_def) (simp add: mapping_json_def)
  ultimately show ?thesis by blast
qed

theorem json_round_trip_keeps_order_witness:
  "json_loads (json_dumps (mapping_json
     [(''Riyadh'',
        [JObj [(''name'', JStr ''A''), (''id'', JInt 3), (''districts'', JArr [JStr ''a2'', JStr ''a1''])],
         JObj [(''name'', JStr ''D''), (''id'', JInt 6), (''districts'', JArr [])]]),
      (''Makkah'',
        [JObj [(''name'', JStr ''B''), (''id'', JInt 4), (''districts'', JArr [JStr ''b1''])]])])) =
   Inr (JObj
     [(''Riyadh'', JArr
        [JObj [(''name'', JStr ''A''), (''id'', JInt 3), (''districts'', JArr [JStr ''a2'', JStr ''a1''])],
         JObj [(''name'', JStr ''D''), (''id'', JInt 6), (''districts'', JArr [])]]),
      (''Makkah'', JArr
        [JObj [(''name'', JStr ''B''), (''id'', JInt 4), (''districts'', JArr [JStr ''b1''])]])])"
proof -
  let ?m = "[(''Riyadh'',
        [JObj [(''name'', JStr ''A''), (''id'', JInt 3), (''districts'', JArr [JStr ''a2'', JStr ''a1''])],
         JObj [(''name'', JStr ''D''), (''id'', JInt 6), (''districts'', JArr [])]]),
      (''Makkah'',
        [JObj [(''name'', JStr ''B''), (''id'', JInt 4), (''districts'', JArr [JStr ''b1''])]])]"
  have "is_py_mapping ?m" by (simp add: is_py_mapping_def)
  from json_round_trip_keeps_order [OF this] show ?thesis by simp
qed

section \<open>Properties of the pipeline\<close>

lemma save_to_excel_written:
  assumes "is_py_mapping res_data"
  shows "save_to_excel save_path json_source
             (fs(json_source \<mapsto> Text_file (json_dumps (mapping_json res_data)))) =
           (case write_sheets 1 (map (\<lambda>(region, cities). (region, JArr cities)) res_data) Workbook of
              Inl e \<Rightarrow> Inl e
            | Inr workbook \<Rightarrow>
                Inr ((fs(json_source \<mapsto> Text_file (json_dumps (mapping_json res_data))))
                       (save_path \<mapsto> Xlsx_file workbook)))"
proof -
  have "loads_value (mapping_json res_data) = mapping_json res_data"
    using assms by (simp add: loads_value_id is_py_value_mapping_json)
  then have "json_loads (json_dumps (mapping_json res_data)) = Inr (mapping_json res_data)"
    by (simp add: json_dumps_def)
  then show ?thesis
    by (simp add: save_to_excel_def) (simp add: mapping_json_def)
qed

text \<open>
  C2.  The two output paths are the same path.  \<^verbatim>\<open>main\<close> succeeds exactly when its
  stages do, and then it has written the JSON document of the merged mapping to that path,
  \<^verbatim>\<open>save_to_excel\<close> has read it from there and has saved the workbook rendered from
  it to the same path: the file ends as that workbook, not as the JSON document.
\<close>

theorem results_paths_coincide:
  "RESULTS_JSON = RESULTS_EXCEL
   \<and> (main env = Inr fs \<longleftrightarrow>
        (\<exists>regions logged m warnings res_data workbook.
           get_regions True (regions_html env) = Inr (regions, logged)
         \<and> get_cities regions True (cities_response env) = Inr (Some m, warnings)
         \<and> get_and_merge_districts (Some m) (districts_response env) = Inr res_data
         \<and> save_to_excel (path_join (parent env) RESULTS_EXCEL)
               (path_join (parent env) RESULTS_JSON)
               ((disk env)(path_join (parent env) RESULTS_JSON \<mapsto>
                  Text_file (json_dumps (mapping_json res_data)))) = Inr fs
         \<and> write_sheets 1 (map (\<lambda>(region, cities). (region, JArr cities)) res_data) Workbook =
               Inr workbook
         \<and> fs = (disk env)(path_join (parent env) RESULTS_JSON \<mapsto> Xlsx_file workbook)
         \<and> fs (path_join (parent env) RESULTS_JSON) \<noteq>
               Some (Text_file (json_dumps (mapping_json res_data)))))"
proof (intro conjI iffI)
  show "RESULTS_JSON = RESULTS_EXCEL" by (simp add: RESULTS_JSON_def RESULTS_EXCEL_def)
next
  assume run: "main env = Inr fs"
  let ?p = "path_join (parent env) RESULTS_JSON"
  have same: "path_join (parent env) RESULTS_EXCEL = ?p"
    by (simp add: RESULTS_JSON_def RESULTS_EXCEL_def)
  from run obtain regions logged where
    r: "get_regions True (regions_html env) = Inr (regions, logged)"
    by (auto simp: main_def split: sum.splits)
  from run r obtain mo warnings where
    c: "get_cities regions True (cities_response env) = Inr (mo, warnings)"
    by (auto simp: main_def split: sum.splits)
  from run r c obtain res_data where
    g: "get_and_merge_districts mo (districts_response env) = Inr res_data"
    by (auto simp: main_def split: sum.splits)
  then obtain m where m: "mo = Some m" by (cases mo) auto
  let ?fs1 = "(disk env)(?p \<mapsto> Text_file (json_dumps (mapping_json res_data)))"
  have s: "save_to_excel ?p ?p ?fs1 = Inr fs"
    using run r c g by (simp add: main_def Let_def same)
  have py: "is_py_mapping res_data"
    using pipeline_data_is_py_mapping c g m by blast
  from s obtain workbook where
    w: "write_sheets 1 (map (\<lambda>(region, cities). (region, JArr cities)) res_data) Workbook = Inr workbook"
    and fs: "fs = ?fs1(?p \<mapsto> Xlsx_file workbook)"
    unfolding save_to_excel_written [OF py] by (auto split: sum.splits)
  have "fs = (disk env)(?p \<mapsto> Xlsx_file workbook)" using fs by simp
  then show "\<exists>regions logged m warnings res_data workbook.
           get_regions True (regions_html env) = Inr (regions, logged)
         \<and> get_cities regions True (cities_response env) = Inr (Some m, warnings)
         \<and> get_and_merge_districts (Some m) (districts_response env) = Inr res_data
         \<and> save_to_excel (path_join (parent env) RESULTS_EXCEL)
               (path_join (parent env) RESULTS_JSON)
               ((disk env)(path_join (parent env) RESULTS_JSON \<mapsto>
                  Text_file (json_dumps (mapping_json res_data)))) = Inr fs
         \<and> write_sheets 1 (map (\<lambda>(region, cities). (region, JArr cities)) res_data) Workbook =
               Inr workbook
         \<and> fs = (disk env)(path_join (parent env) RESULTS_JSON \<mapsto> Xlsx_file workbook)
         \<and> fs (path_join (parent env) RESULTS_JSON) \<noteq>
               Some (Text_file (json_dumps (mapping_json res_data)))"
    using r c g m s w same by auto
next
  assume "\<exists>regions logged m warnings res_data workbook.
           get_regions True (regions_html env) = Inr (regions, logged)
         \<and> get_cities regions True (cities_response env) = Inr (Some m, warnings)
         \<and> get_and_merge_districts (Some m) (districts_response env) = Inr res_data
         \<and> save_to_excel (path_join (parent env) RESULTS_EXCEL)
               (path_join (parent env) RESULTS_JSON)
               ((disk env)(path_join (parent env) RESULTS_JSON \<mapsto>
                  Text_file (json_dumps (mapping_json res_data)))) = Inr fs
         \<and> write_sheets 1 (map (\<lambda>(region, cities). (region, JArr cities)) res_data) Workbook =
               Inr workbook
         \<and> fs = (disk env)(path_join (parent env) RESULTS_JSON \<mapsto> Xlsx_file workbook)
         \<and> fs (path_join (parent env) RESULTS_JSON) \<noteq>
               Some (Text_file (json_dumps (mapping_json res_data)))"
  then show "main env = Inr fs"
    by (auto simp: main_def Let_def)
qed

theorem results_paths_coincide_witness:
  "\<exists>fs workbook.
     main \<lparr>regions_html = Some [\<lparr>attrs = [(''id'', ''1'')], get_text = ''Riyadh''\<rparr>],
           cities_response = Json_text (JArr
             [JObj [(''fkEmirateID'', JStr ''1''), (''ArabicName'', JStr ''Ar-Riyad''),
                    (''EnglishName'', JStr ''Riyadh City''), (''pkCityID'', JStr ''3'')]]),
           districts_response = (\<lambda>region i. Json_text (JArr [JObj [(''ArabicName'', JStr ''Olaya'')]])),
           parent = ''/srv'', disk = Map.empty\<rparr> = Inr fs
     \<and> fs ''/srv/region_cities_districts.json'' = Some (Xlsx_file workbook)
     \<and> length workbook = 2
     \<and> cells (workbook ! 0) (1, 1) =
         Some \<lparr>cell_value = JStr ''Ar-Riyad'', cell_font = Font True 12\<rparr>
     \<and> cells (workbook ! 0) (1, 2) =
         Some \<lparr>cell_value = JStr ''Olaya'', cell_font = default_font\<rparr>
     \<and> cells (workbook ! 1) (1, 1) = None"
proof -
  let ?resp = "\<lambda>(region :: string) (i :: nat). Json_text (JArr [JObj [(''ArabicName'', JStr ''Olaya'')]])"
  let ?env = "\<lparr>regions_html = Some [\<lparr>attrs = [(''id'', ''1'')], get_text = ''Riyadh''\<rparr>],
           cities_response = Json_text (JArr
             [JObj [(''fkEmirateID'', JStr ''1''), (''ArabicName'', JStr ''Ar-Riyad''),
                    (''EnglishName'', JStr ''Riyadh City''), (''pkCityID'', JStr ''3'')]]),
           districts_response = ?resp,
           parent = ''/srv'', disk = Map.empty\<rparr>"
  let ?m = "[(''Riyadh'',
      [JObj [(''name'', JStr ''Ar-Riyad''), (''id'', JStr ''3''), (''districts'', JArr [])]])]"
  let ?res = "[(''Riyadh'',
      [JObj [(''name'', JStr ''Ar-Riyad''), (''id'', JStr ''3''),
             (''districts'', JArr [JStr ''Olaya''])]])]"
  let ?p = "''/srv/region_cities_districts.json''"
  have r: "get_regions True (regions_html ?env) = Inr ([(''1'', ''Riyadh'')], [])"
    by (simp add: get_regions_def py_int_def int_strip_def is_int_space_def strip_def
        is_space_def is_digit_def str_int_def digit_char_def)
  have c: "get_cities [(''1'', ''Riyadh'')] True (cities_response ?env) = Inr (Some ?m, [])"
    by (simp add: get_cities_def dict_update_all_def)
  have g: "get_and_merge_districts (Some ?m) (districts_response ?env) = Inr ?res"
    by (simp add: merge_region_def get_districts_def merged_districts_def dict_update_all_def)
  have "map_sum id
      (\<lambda>wb. (length wb, cells (wb ! 0) (1, 1), cells (wb ! 0) (1, 2), cells (wb ! 1) (1, 1)))
      (write_sheets 1 (map (\<lambda>(region, cities). (region, JArr cities)) ?res) Workbook) =
      Inr (2, Some \<lparr>cell_value = JStr ''Ar-Riyad'', cell_font = Font True 12\<rparr>,
           Some \<lparr>cell_value = JStr ''Olaya'', cell_font = default_font\<rparr>, None)"
    by code_simp
  then obtain wb where
    w: "write_sheets 1 (map (\<lambda>(region, cities). (region, JArr cities)) ?res) Workbook = Inr wb"
    and wb: "length wb = 2"
      "cells (wb ! 0) (1, 1) = Some \<lparr>cell_value = JStr ''Ar-Riyad'', cell_font = Font True 12\<rparr>"
      "cells (wb ! 0) (1, 2) = Some \<lparr>cell_value = JStr ''Olaya'', cell_font = default_font\<rparr>"
      "cells (wb ! 1) (1, 1) = None"
    by (cases "write_sheets 1 (map (\<lambda>(region, cities). (region, JArr cities)) ?res) Workbook") auto
  have paths: "path_join (parent ?env) RESULTS_JSON = ?p" "path_join (parent ?env) RESULTS_EXCEL = ?p"
    by (simp_all add: path_join_def RESULTS_JSON_def RESULTS_EXCEL_def)
  have py: "is_py_mapping ?res" by (simp add: is_py_mapping_def)
  have s: "save_to_excel ?p ?p ((disk ?env)(?p \<mapsto> Text_file (json_dumps (mapping_json ?res)))) =
      Inr ((disk ?env)(?p \<mapsto> Xlsx_file wb))"
    unfolding save_to_excel_written [OF py] w by simp
  have "main ?env = Inr ((disk ?env)(?p \<mapsto> Xlsx_file wb))"
    apply (rule results_paths_coincide [THEN conjunct2, THEN iffD2])
    apply (rule exI [of _ "[(''1'', ''Riyadh'')]"])
    apply (rule exI [of _ "[]"])
    apply (rule exI [of _ ?m])
    apply (rule exI [of _ "[]"])
    apply (rule exI [of _ ?res])
    apply (rule exI [of _ wb])
    unfolding paths
    using r c g s w by simp
  then show ?thesis using wb by auto
qed

section \<open>Properties of the Exporter: the sheets\<close>

lemma write_districts_result:
  assumes "write_districts row col ds (sh, lens) = Inr (sh', lens')"
    and "2 \<le> col"
    and "\<forall>c \<ge> 2. column_width sh c = map_option of_nat (lens c)"
    and "\<forall>c \<ge> col. cells sh (row, c) = None"
  shows "title sh' = title sh
     \<and> (\<forall>r c. cells sh' (r, c) =
           (if r = row \<and> col \<le> c \<and> c < col + length ds
            then Some \<lparr>cell_value = ds ! (c - col), cell_font = default_font\<rparr>
            else cells sh (r, c)))
     \<and> (\<forall>c. lens' c =
           (if col \<le> c \<and> c < col + length ds
            then widen (lens c) (value_len (ds ! (c - col))) else lens c))
     \<and> (\<forall>c \<ge> 2. column_width sh' c = map_option of_nat (lens' c))
     \<and> column_width sh' 1 = column_width sh 1"
  using assms
proof (induction ds arbitrary: col sh lens)
  case Nil
  then show ?case by auto
next
  case (Cons d ds)
  from Cons.prems(1) obtain n where n: "py_len d = Inr n" and col: "col \<le> 18278"
    by (auto simp: get_column_letter_def Let_def split: sum.splits if_splits)
  define sh1 where "sh1 = sheet_cell sh row col d"
  define lens1 where "lens1 = lens(col := widen (lens col) n)"
  define sh2 where "sh2 = sh1\<lparr>column_width := (column_width sh)(col := map_option of_nat (lens1 col))\<rparr>"
  have w: "column_width sh col = map_option of_nat (lens col)"
    using Cons.prems(2,3) by simp
  have cw1: "column_width sh1 = column_width sh"
    by (simp add: sh1_def sheet_cell_def)
  have eq: "write_districts row col (d # ds) (sh, lens) =
      (if n > (case lens col of None \<Rightarrow> n | Some l \<Rightarrow> if l = 0 then n else l) \<or> lens col = None
       then write_districts row (col + 1) ds (set_width sh1 col (of_nat n), lens(col \<mapsto> n))
       else write_districts row (col + 1) ds (sh1, lens))"
    using n col Cons.prems(2) by (simp add: get_column_letter_def Let_def sh1_def)
  have upd: "set_width sh1 col (of_nat n) = sh2" if "lens1 col = Some n"
    using that by (simp add: set_width_def sh2_def cw1)
  have keep: "sh1 = sh2 \<and> lens = lens1" if "lens1 col = lens col"
  proof -
    have "(column_width sh)(col := map_option of_nat (lens1 col)) = column_width sh1"
      using that w cw1 by (simp add: fun_upd_idem)
    then have "sh2 = sh1" by (simp add: sh2_def)
    moreover have "lens1 = lens" using that by (simp add: lens1_def fun_upd_idem)
    ultimately show ?thesis by simp
  qed
  have step: "write_districts row col (d # ds) (sh, lens) = write_districts row (col + 1) ds (sh2, lens1)"
  proof (cases "lens col")
    case None
    then have "lens1 col = Some n" "lens(col \<mapsto> n) = lens1" by (simp_all add: lens1_def)
    then show ?thesis using eq None upd by simp
  next
    case (Some l)
    show ?thesis
    proof (cases "l \<noteq> 0 \<and> l < n")
      case True
      then have "lens1 col = Some n" "lens(col \<mapsto> n) = lens1" using Some by (simp_all add: lens1_def)
      then show ?thesis using eq Some True upd by simp
    next
      case False
      then have "lens1 col = lens col" using Some by (simp add: lens1_def)
      from keep [OF this] show ?thesis using eq Some False by auto
    qed
  qed
  have run: "write_districts row (col + 1) ds (sh2, lens1) = Inr (sh', lens')"
    using Cons.prems(1) step by simp
  have inv2: "\<forall>c \<ge> 2. column_width sh2 c = map_option of_nat (lens1 c)"
    using Cons.prems(3) by (simp add: sh2_def lens1_def)
  have empty2: "\<forall>c \<ge> col + 1. cells sh2 (row, c) = None"
    using Cons.prems(4) by (simp add: sh2_def sh1_def sheet_cell_def)
  have col2: "2 \<le> col + 1" using Cons.prems(2) by simp
  from Cons.IH [OF run col2 inv2 empty2] have
    ih1: "title sh' = title sh2"
    and ih2: "\<forall>r c. cells sh' (r, c) =
           (if r = row \<and> col + 1 \<le> c \<and> c < col + 1 + length ds
            then Some \<lparr>cell_value = ds ! (c - (col + 1)), cell_font = default_font\<rparr>
            else cells sh2 (r, c))"
    and ih3: "\<forall>c. lens' c =
           (if col + 1 \<le> c \<and> c < col + 1 + length ds
            then widen (lens1 c) (value_len (ds ! (c - (col + 1)))) else lens1 c)"
    and ih4: "\<forall>c \<ge> 2. column_width sh' c = map_option of_nat (lens' c)"
    and ih5: "column_width sh' 1 = column_width sh2 1"
    by blast+
  have c2: "cells sh2 = (cells sh)((row, col) \<mapsto> \<lparr>cell_value = d, cell_font = default_font\<rparr>)"
    using Cons.prems(4) by (simp add: sh2_def sh1_def sheet_cell_def)
  have t: "title sh' = title sh" using ih1 by (simp add: sh2_def sh1_def sheet_cell_def)
  have cells: "\<forall>r c. cells sh' (r, c) =
           (if r = row \<and> col \<le> c \<and> c < col + length (d # ds)
            then Some \<lparr>cell_value = (d # ds) ! (c - col), cell_font = default_font\<rparr>
            else cells sh (r, c))"
  proof (intro allI)
    fix r c
    show "cells sh' (r, c) =
           (if r = row \<and> col \<le> c \<and> c < col + length (d # ds)
            then Some \<lparr>cell_value = (d # ds) ! (c - col), cell_font = default_font\<rparr>
            else cells sh (r, c))"
    proof (cases "r = row \<and> c = col")
      case True
      then show ?thesis using ih2 c2 by simp
    next
      case False
      have "c - col = Suc (c - (col + 1))" if "col + 1 \<le> c" using that by simp
      then show ?thesis using False ih2 c2 by (auto simp: nth_Cons')
    qed
  qed
  have vl: "value_len d = n" using n by (simp add: value_len_def)
  have lens: "\<forall>c. lens' c =
           (if col \<le> c \<and> c < col + length (d # ds)
            then widen (lens c) (value_len ((d # ds) ! (c - col))) else lens c)"
  proof
    fix c
    show "lens' c =
           (if col \<le> c \<and> c < col + length (d # ds)
            then widen (lens c) (value_len ((d # ds) ! (c - col))) else lens c)"
    proof (cases "c = col")
      case True
      then show ?thesis using ih3 vl by (simp add: lens1_def)
    next
      case False
      have "c - col = Suc (c - (col + 1))" if "col + 1 \<le> c" using that by simp
      then show ?thesis using False ih3 by (auto simp: lens1_def nth_Cons')
    qed
  qed
  have w1: "column_width sh' 1 = column_width sh 1"
    using ih5 Cons.prems(2) by (simp add: sh2_def)
  show ?case using t cells lens ih4 w1 by blast
qed

lemma column_lens_Cons:
  "column_lens (city # rows) j =
     (if j < length (districts_list city) then [value_len (districts_list city ! j)] else [])
     @ column_lens rows j"
  by (simp add: column_lens_def)

lemma write_cities_result:
  assumes "write_cities count xs (sh, mx, lens) = Inr (sh', mx', lens')"
    and "\<forall>c \<ge> 2. column_width sh c = map_option of_nat (lens c)"
    and "column_width sh 1 = Some mx"
    and "\<forall>r \<ge> count. \<forall>c. cells sh (r, c) = None"
  shows "title sh' = title sh
     \<and> (\<forall>r c. cells sh' (r, c) =
           (if count \<le> r \<and> r < count + length xs then row_cell (xs ! (r - count)) c
            else cells sh (r, c)))
     \<and> mx' = fold (\<lambda>city m. max m (name_width city)) xs mx
     \<and> column_width sh' 1 = Some mx'
     \<and> (\<forall>j. lens' (j + 2) = fold (\<lambda>n l. widen l n) (column_lens xs j) (lens (j + 2)))
     \<and> (\<forall>c \<ge> 2. column_width sh' c = map_option of_nat (lens' c))"
  using assms
proof (induction xs arbitrary: count sh mx lens)
  case Nil
  then show ?case by (auto simp: column_lens_def)
next
  case (Cons city xs)
  from Cons.prems(1) obtain nm where nm: "py_getitem city ''name'' = Inr nm"
    by (auto split: sum.splits)
  from Cons.prems(1) nm obtain n where n: "py_len nm = Inr n"
    by (auto simp: Let_def split: sum.splits)
  from Cons.prems(1) nm n obtain dsv where dsv: "py_getitem city ''districts'' = Inr dsv"
    by (auto simp: Let_def split: sum.splits)
  from Cons.prems(1) nm n dsv obtain districts where ds: "py_iter dsv = Inr districts"
    by (auto simp: Let_def split: sum.splits)
  define sh1 where "sh1 = set_font (sheet_cell sh count 1 nm) count 1 (Font True 12)"
  define mx2 where "mx2 = (if of_nat (round_scaled n) > mx then of_nat (round_scaled n) else mx)"
  define sh2 where "sh2 = (if of_nat (round_scaled n) > mx then set_width sh1 1 mx2 else sh1)"
  have mx2_max: "mx2 = max mx (of_nat (round_scaled n))"
    by (simp add: mx2_def max_def)
  have eq: "write_cities count (city # xs) (sh, mx, lens) =
      (case write_districts count 2 districts (sh2, lens) of
         Inl e \<Rightarrow> Inl e
       | Inr (sh3, lens3) \<Rightarrow> write_cities (count + 1) xs (sh3, mx2, lens3))"
    by (auto simp: nm n dsv ds Let_def sh1_def sh2_def mx2_def split: sum.splits)
  from Cons.prems(1) obtain sh3 lens3 where
    wd: "write_districts count 2 districts (sh2, lens) = Inr (sh3, lens3)"
    and rest: "write_cities (count + 1) xs (sh3, mx2, lens3) = Inr (sh', mx', lens')"
    unfolding eq by (auto split: sum.splits)
  have it: "item city ''name'' = nm" "districts_list city = districts"
    using nm dsv ds by (simp_all add: item_def districts_list_def)
  have nw: "name_width city = of_nat (round_scaled n)"
    using it(1) n by (simp add: name_width_def value_len_def)
  have c1: "cells sh1 = (cells sh)((count, 1) \<mapsto> \<lparr>cell_value = nm, cell_font = Font True 12\<rparr>)"
    using Cons.prems(4) by (simp add: sh1_def set_font_def sheet_cell_def)
  have c2: "cells sh2 = cells sh1" by (simp add: sh2_def set_width_def)
  have w1: "column_width sh1 = column_width sh" by (simp add: sh1_def set_font_def sheet_cell_def)
  have w2: "column_width sh2 1 = Some mx2"
    using Cons.prems(3) w1 by (auto simp: sh2_def set_width_def mx2_def)
  have w2': "\<forall>c \<ge> 2. column_width sh2 c = map_option of_nat (lens c)"
    using Cons.prems(2) w1 by (simp add: sh2_def set_width_def)
  have t2: "title sh2 = title sh"
    by (simp add: sh2_def set_width_def sh1_def set_font_def sheet_cell_def)
  have e2: "\<forall>c \<ge> 2. cells sh2 (count, c) = None"
    using Cons.prems(4) by (simp add: c2 c1)
  from write_districts_result [OF wd _ w2' e2] have
    d1: "title sh3 = title sh2"
    and d2: "\<forall>r c. cells sh3 (r, c) =
           (if r = count \<and> 2 \<le> c \<and> c < 2 + length districts
            then Some \<lparr>cell_value = districts ! (c - 2), cell_font = default_font\<rparr>
            else cells sh2 (r, c))"
    and d3: "\<forall>c. lens3 c =
           (if 2 \<le> c \<and> c < 2 + length districts
            then widen (lens c) (value_len (districts ! (c - 2))) else lens c)"
    and d4: "\<forall>c \<ge> 2. column_width sh3 c = map_option of_nat (lens3 c)"
    and d5: "column_width sh3 1 = column_width sh2 1"
    by simp_all
  have e3: "\<forall>r \<ge> count + 1. \<forall>c. cells sh3 (r, c) = None"
    using d2 Cons.prems(4) by (simp add: c2 c1)
  have w3: "column_width sh3 1 = Some mx2" using d5 w2 by simp
  from Cons.IH [OF rest d4 w3 e3] have
    i1: "title sh' = title sh3"
    and i2: "\<forall>r c. cells sh' (r, c) =
           (if count + 1 \<le> r \<and> r < count + 1 + length xs then row_cell (xs ! (r - (count + 1))) c
            else cells sh3 (r, c))"
    and i3: "mx' = fold (\<lambda>city m. max m (name_width city)) xs mx2"
    and i4: "column_width sh' 1 = Some mx'"
    and i5: "\<forall>j. lens' (j + 2) = fold (\<lambda>n l. widen l n) (column_lens xs j) (lens3 (j + 2))"
    and i6: "\<forall>c \<ge> 2. column_width sh' c = map_option of_nat (lens' c)"
    by simp_all
  have row: "cells sh3 (count, c) = row_cell city c" for c
    using d2 Cons.prems(4) by (auto simp: row_cell_def it c2 c1)
  have other: "cells sh3 (r, c) = cells sh (r, c)" if "r \<noteq> count" for r c
    using d2 that by (simp add: c2 c1)
  have cells: "\<forall>r c. cells sh' (r, c) =
           (if count \<le> r \<and> r < count + length (city # xs) then row_cell ((city # xs) ! (r - count)) c
            else cells sh (r, c))"
  proof (intro allI)
    fix r c
    consider "r = count" | "count + 1 \<le> r" | "r < count" by linarith
    then show "cells sh' (r, c) =
           (if count \<le> r \<and> r < count + length (city # xs) then row_cell ((city # xs) ! (r - count)) c
            else cells sh (r, c))"
    proof cases
      case 1
      then show ?thesis using i2 row by simp
    next
      case 2
      then have "r - count = Suc (r - (count + 1))" by simp
      then show ?thesis using 2 i2 other [of r c] by auto
    next
      case 3
      then show ?thesis using i2 other [of r c] by simp
    qed
  qed
  have mx: "mx' = fold (\<lambda>city m. max m (name_width city)) (city # xs) mx"
    using i3 nw by (simp add: mx2_max)
  have lens: "\<forall>j. lens' (j + 2) = fold (\<lambda>n l. widen l n) (column_lens (city # xs) j) (lens (j + 2))"
    using i5 d3 by (simp add: column_lens_Cons it)
  have "title sh' = title sh" using i1 d1 t2 by simp
  then show ?case using cells mx i4 lens i6 by blast
qed

lemma insort_key_zip:
  assumes "\<forall>p \<in> set ps. fst p = f (snd p)"
  shows "map snd (insort_key (\<lambda>p. g (fst p)) (f x, x) ps) = insort_key (\<lambda>c. g (f c)) x (map snd ps)"
  using assms by (induction ps) auto

lemma sort_key_zip:
  "map snd (sort_key (\<lambda>p. g (fst p)) (zip (map f xs) xs)) = sort_key (\<lambda>c. g (f c)) xs
   \<and> (\<forall>p \<in> set (sort_key (\<lambda>p. g (fst p)) (zip (map f xs) xs)). fst p = f (snd p))"
proof (induction xs)
  case Nil
  then show ?case by simp
next
  case (Cons x xs)
  then show ?case by (auto simp: insort_key_zip set_insort_key)
qed

lemma districts_count_keys:
  assumes "mapM districts_count cs = Inr keys"
  shows "keys = map district_count cs"
proof -
  have "list_all2 (\<lambda>c k. districts_count c = Inr k) cs keys"
    using assms by (simp add: mapM_Inr_iff)
  then show ?thesis
    by (auto simp: list_all2_conv_all_nth district_count_def intro!: nth_equalityI)
qed

lemma sorted_desc_rows:
  assumes "mapM districts_count cs = Inr keys"
  shows "sorted_desc keys cs = sheet_rows cs"
  using sort_key_zip [of "\<lambda>k. - int k" district_count cs] districts_count_keys [OF assms]
  by (simp add: sorted_desc_def sheet_rows_def)

lemma py_len_iter: "py_iter v = Inr xs \<Longrightarrow> py_len v = Inr (length xs)"
  by (cases v) auto

lemma write_cities_rows_ok:
  assumes "write_cities count xs st = Inr st'" "city \<in> set xs"
  shows "\<exists>dsv ds. py_getitem city ''districts'' = Inr dsv \<and> py_iter dsv = Inr ds"
  using assms
proof (induction xs arbitrary: count st)
  case Nil
  then show ?case by simp
next
  case (Cons c xs)
  obtain sh mx lens where st: "st = (sh, mx, lens)" by (cases st)
  from Cons.prems(1) obtain dsv ds where
    d: "py_getitem c ''districts'' = Inr dsv" "py_iter dsv = Inr ds"
    unfolding st by (auto simp: Let_def split: sum.splits)
  show ?case
  proof (cases "city = c")
    case True
    then show ?thesis using d by blast
  next
    case False
    from Cons.prems(1) obtain st2 where "write_cities (count + 1) xs st2 = Inr st'"
      unfolding st by (auto simp: Let_def split: sum.splits)
    from Cons.IH [OF this] False Cons.prems(2) show ?thesis by simp
  qed
qed

lemma district_count_length:
  assumes "py_getitem city ''districts'' = Inr dsv" "py_iter dsv = Inr ds"
  shows "district_count city = length (districts_list city)"
proof -
  from assms(1) obtain d where d: "city = JObj d" "map_of d ''districts'' = Some dsv"
    by (cases city) (auto split: option.splits)
  then have "districts_count city = Inr (length ds)" using py_len_iter [OF assms(2)] by simp
  then show ?thesis using assms by (simp add: district_count_def districts_list_def item_def)
qed

lemma write_cities_append:
  "write_cities count (xs @ ys) st =
     (case write_cities count xs st of
        Inl e \<Rightarrow> Inl e
      | Inr st' \<Rightarrow> write_cities (count + length xs) ys st')"
proof (induction xs arbitrary: count st)
  case Nil
  then show ?case by simp
next
  case (Cons c xs)
  obtain sh mx lens where st: "st = (sh, mx, lens)" by (cases st)
  show ?case unfolding st
    by (auto simp: Cons.IH Let_def split: sum.splits)
qed

lemma fold_max_name_width:
  "fold (\<lambda>city m. max m (name_width city)) xs mx = Max (insert mx (name_width ` set xs))"
proof (induction xs arbitrary: mx)
  case Nil
  then show ?case by simp
next
  case (Cons c xs)
  have "Max (insert (max mx (name_width c)) (name_width ` set xs)) =
        Max (insert mx (insert (name_width c) (name_width ` set xs)))"
    by (cases "set xs = {}") (auto simp: max.assoc max.commute max.left_commute)
  then show ?case using Cons.IH [of "max mx (name_width c)"] by simp
qed

lemma fold_widen_Some:
  "fold (\<lambda>n l. widen l n) ls (Some l) =
     Some (if l = 0 then 0 else Max (insert l (set ls)))"
proof (induction ls arbitrary: l)
  case Nil
  then show ?case by simp
next
  case (Cons n ls)
  show ?case
  proof (cases "l \<noteq> 0 \<and> l < n")
    case True
    then have "Max (insert n (set ls)) = Max (insert l (insert n (set ls)))"
      by (cases "set ls = {}") (auto simp: max_def)
    then show ?thesis using True Cons.IH [of n] by simp
  next
    case False
    then have "l \<noteq> 0 \<Longrightarrow> Max (insert l (set ls)) = Max (insert l (insert n (set ls)))"
      by (cases "set ls = {}") (auto simp: max_def)
    then show ?thesis using False Cons.IH [of l] by auto
  qed
qed

lemma fold_widen_None:
  "fold (\<lambda>n l. widen l n) ls None =
     (case ls of [] \<Rightarrow> None | n # rest \<Rightarrow> Some (if n = 0 then 0 else Max (set ls)))"
  by (cases ls) (simp_all add: fold_widen_Some)

lemma fold_widen_grows:
  "\<exists>l'. fold (\<lambda>n l. widen l n) ls (Some l) = Some l' \<and> l \<le> l'"
  by (simp add: fold_widen_Some)

lemma write_sheet_run:
  assumes "write_sheet region (JArr cities) = Inr sh"
  shows "\<exists>mx lens. write_cities 1 (sheet_rows cities) (blank_sheet region, 6 / 5, Map.empty) =
           Inr (sh, mx, lens)"
proof -
  from assms obtain keys where k: "mapM districts_count cities = Inr keys"
    by (auto simp: write_sheet_def Let_def split: sum.splits)
  from assms k show ?thesis
    by (auto simp: write_sheet_def Let_def sorted_desc_rows [OF k] blank_sheet_def split: sum.splits)
qed

lemma blank_sheet_facts:
  "\<forall>c \<ge> 2. column_width (blank_sheet region) c = map_option of_nat (Map.empty c)"
  "column_width (blank_sheet region) 1 = Some (6 / 5)"
  "\<forall>r \<ge> n. \<forall>c. cells (blank_sheet region) (r, c) = None"
  "title (blank_sheet region) = region"
  by (simp_all add: blank_sheet_def set_width_def)

lemma sheet_rows_counts:
  assumes "write_sheet region (JArr cities) = Inr sh" "city \<in> set cities"
  shows "district_count city = length (districts_list city)"
proof -
  from write_sheet_run [OF assms(1)] obtain mx lens where
    run: "write_cities 1 (sheet_rows cities) (blank_sheet region, 6 / 5, Map.empty) = Inr (sh, mx, lens)"
    by blast
  have "city \<in> set (sheet_rows cities)" using assms(2) by (simp add: sheet_rows_def)
  from write_cities_rows_ok [OF run this] show ?thesis by (auto intro: district_count_length)
qed

lemma write_sheet_rows:
  assumes "write_sheet region (JArr cities) = Inr sh"
  shows "length (sheet_rows cities) = length cities \<and> set (sheet_rows cities) = set cities
     \<and> (\<forall>i j. i < j \<and> j < length cities \<longrightarrow>
           length (districts_list (sheet_rows cities ! j)) \<le>
           length (districts_list (sheet_rows cities ! i)))
     \<and> (\<forall>i j. i < length cities \<and> j < length cities \<and>
           length (districts_list (sheet_rows cities ! j)) <
           length (districts_list (sheet_rows cities ! i)) \<longrightarrow> i < j)
     \<and> (\<forall>k. filter (\<lambda>city. length (districts_list city) = k) (sheet_rows cities) =
             filter (\<lambda>city. length (districts_list city) = k) cities)
     \<and> (\<forall>i < length cities.
           cells sh (i + 1, 1) =
             Some \<lparr>cell_value = item (sheet_rows cities ! i) ''name'', cell_font = Font True 12\<rparr>
           \<and> (\<forall>j < length (districts_list (sheet_rows cities ! i)).
                 cells sh (i + 1, j + 2) =
                   Some \<lparr>cell_value = districts_list (sheet_rows cities ! i) ! j,
                         cell_font = default_font\<rparr>))
     \<and> (\<forall>r c. cells sh (r, c) =
           (if 1 \<le> r \<and> r \<le> length cities then row_cell (sheet_rows cities ! (r - 1)) c
            else None))"
proof -
  let ?rows = "sheet_rows cities"
  let ?key = "\<lambda>city. - int (district_count city)"
  have len: "length ?rows = length cities" by (simp add: sheet_rows_def)
  have set: "set ?rows = set cities" by (simp add: sheet_rows_def)
  have cnt: "district_count city = length (districts_list city)" if "city \<in> set cities" for city
    using sheet_rows_counts [OF assms that] .
  have cnt_row: "district_count (?rows ! i) = length (districts_list (?rows ! i))"
    if "i < length cities" for i
    using cnt [of "?rows ! i"] that len set by (metis nth_mem)
  have 1: "length ?rows = length cities \<and> set ?rows = set cities" using len set by simp
  have srt: "sorted (map ?key ?rows)" by (simp add: sheet_rows_def)
  have mono: "district_count (?rows ! j) \<le> district_count (?rows ! i)"
    if "i \<le> j" "j < length cities" for i j
  proof -
    have "map ?key ?rows ! i \<le> map ?key ?rows ! j"
      using srt that len by (simp add: sorted_iff_nth_mono del: map_map)
    then show ?thesis using that len by simp
  qed
  have 2: "\<forall>i j. i < j \<and> j < length cities \<longrightarrow>
           length (districts_list (?rows ! j)) \<le> length (districts_list (?rows ! i))"
  proof (intro allI impI)
    fix i j assume a: "i < j \<and> j < length cities"
    then show "length (districts_list (?rows ! j)) \<le> length (districts_list (?rows ! i))"
      using mono [of i j] cnt_row [of i] cnt_row [of j] by simp
  qed
  have 3: "\<forall>i j. i < length cities \<and> j < length cities \<and>
           length (districts_list (?rows ! j)) < length (districts_list (?rows ! i)) \<longrightarrow> i < j"
  proof (intro allI impI)
    fix i j assume a: "i < length cities \<and> j < length cities \<and>
           length (districts_list (?rows ! j)) < length (districts_list (?rows ! i))"
    show "i < j"
    proof (rule ccontr)
      assume "\<not> i < j"
      then have "j \<le> i" by simp
      from mono [OF this] a cnt_row [of i] cnt_row [of j] show False by simp
    qed
  qed
  have 4: "\<forall>k. filter (\<lambda>city. length (districts_list city) = k) ?rows =
             filter (\<lambda>city. length (districts_list city) = k) cities"
  proof
    fix k
    have "filter (\<lambda>city. ?key city = - int k) ?rows = filter (\<lambda>city. ?key city = - int k) cities"
      unfolding sheet_rows_def by (rule sort_key_stable)
    moreover have "filter (\<lambda>city. ?key city = - int k) xs =
        filter (\<lambda>city. length (districts_list city) = k) xs" if "set xs = set cities" for xs
      using that cnt by (intro filter_cong) auto
    ultimately show "filter (\<lambda>city. length (districts_list city) = k) ?rows =
             filter (\<lambda>city. length (districts_list city) = k) cities"
      using set by simp
  qed
  from write_sheet_run [OF assms] obtain mx lens where
    run: "write_cities 1 ?rows (blank_sheet region, 6 / 5, Map.empty) = Inr (sh, mx, lens)"
    by blast
  from write_cities_result [OF run blank_sheet_facts(1,2,3)] have
    t: "title sh = title (blank_sheet region)"
    and c: "\<forall>r c. cells sh (r, c) =
           (if 1 \<le> r \<and> r < 1 + length ?rows then row_cell (?rows ! (r - 1)) c
            else cells (blank_sheet region) (r, c))"
    by simp_all
  have 6: "\<forall>r c. cells sh (r, c) =
           (if 1 \<le> r \<and> r \<le> length cities then row_cell (?rows ! (r - 1)) c else None)"
    using c len blank_sheet_facts(3) [of 0 region] by (auto simp: less_Suc_eq_le)
  have 5: "\<forall>i < length cities.
           cells sh (i + 1, 1) =
             Some \<lparr>cell_value = item (?rows ! i) ''name'', cell_font = Font True 12\<rparr>
           \<and> (\<forall>j < length (districts_list (?rows ! i)).
                 cells sh (i + 1, j + 2) =
                   Some \<lparr>cell_value = districts_list (?rows ! i) ! j, cell_font = default_font\<rparr>)"
    using 6 by (simp add: row_cell_def)
  show ?thesis using 1 2 3 4 5 6 by blast
qed

text \<open>
  The sheets of the saved workbook are the sheets of the regions, in document order, before
  the sheet the workbook starts with.
\<close>

lemma write_sheets_result:
  assumes "write_sheets idx items (pre @ [d]) = Inr wb" and "length pre + 1 = idx"
  shows "\<exists>sheets. list_all2 (\<lambda>rc sh. write_sheet (fst rc) (snd rc) = Inr sh) items sheets
           \<and> wb = pre @ sheets @ [d]"
  using assms
proof (induction items arbitrary: idx pre)
  case Nil
  then show ?case by simp
next
  case (Cons rc items)
  obtain region cities where rc: "rc = (region, cities)" by (cases rc)
  from Cons.prems(1) obtain sh where
    sh: "write_sheet region cities = Inr sh"
    and rest: "write_sheets (idx + 1) items (create_sheet (pre @ [d]) sh (idx - 1)) = Inr wb"
    unfolding rc by (auto split: sum.splits)
  have "create_sheet (pre @ [d]) sh (idx - 1) = (pre @ [sh]) @ [d]"
    using Cons.prems(2) by (auto simp: create_sheet_def)
  then have "write_sheets (idx + 1) items ((pre @ [sh]) @ [d]) = Inr wb" using rest by simp
  from Cons.IH [OF this] Cons.prems(2) obtain sheets where
    "list_all2 (\<lambda>rc sh. write_sheet (fst rc) (snd rc) = Inr sh) items sheets"
    "wb = (pre @ [sh]) @ sheets @ [d]"
    by auto
  then have "list_all2 (\<lambda>rc sh. write_sheet (fst rc) (snd rc) = Inr sh) (rc # items) (sh # sheets)
      \<and> wb = pre @ (sh # sheets) @ [d]"
    using sh rc by simp
  then show ?case by blast
qed

lemma save_to_excel_sheets:
  assumes "fs json_source = Some (Text_file t)" and "json_loads t = Inr (JObj items)"
    and "save_to_excel save_path json_source fs = Inr fs'"
  shows "\<exists>workbook. fs' = fs(save_path \<mapsto> Xlsx_file workbook)
           \<and> length workbook = length items + 1
           \<and> (\<forall>k < length items. write_sheet (fst (items ! k)) (snd (items ! k)) = Inr (workbook ! k))"
proof -
  from assms obtain workbook where
    w: "write_sheets 1 items Workbook = Inr workbook"
    and f: "fs' = fs(save_path \<mapsto> Xlsx_file workbook)"
    by (auto simp: save_to_excel_def split: sum.splits)
  have "write_sheets 1 items ([] @ [\<lparr>title = ''Sheet'', cells = Map.empty, column_width = Map.empty\<rparr>]) =
      Inr workbook"
    using w by (simp add: Workbook_def)
  from write_sheets_result [OF this] obtain sheets where
    s: "list_all2 (\<lambda>rc sh. write_sheet (fst rc) (snd rc) = Inr sh) items sheets"
       "workbook = sheets @ [\<lparr>title = ''Sheet'', cells = Map.empty, column_width = Map.empty\<rparr>]"
    by auto
  have len: "length sheets = length items" using s(1) by (simp add: list_all2_lengthD)
  have "\<forall>k < length items. write_sheet (fst (items ! k)) (snd (items ! k)) = Inr (workbook ! k)"
    using s len by (simp add: list_all2_conv_all_nth nth_append)
  moreover have "length workbook = length items + 1" using s(2) len by simp
  ultimately show ?thesis using f by blast
qed

text \<open>
  C6.  When \<^verbatim>\<open>save_to_excel\<close> has rendered a document, the sheet of a region stands
  in the workbook at the region's place in the document, and in it the cities are ordered
  by descending district count, cities of equal count in their order of the document; each
  city occupies one row, its name in bold (size 12) in column 1 and its districts in the
  columns from 2 on, in their order, and the sheet has no other cell.  The document is one
  whose region names and cell values the workbook library takes as they are.
\<close>

theorem saved_sheet_rows_by_descending_district_count:
  assumes "fs json_source = Some (Text_file t)"
    and "json_loads t = Inr (JObj items)"
    and "plain_document items"
    and "save_to_excel save_path json_source fs = Inr fs'"
    and "k < length items" and "items ! k = (region, JArr cities)"
  shows "\<exists>workbook.
       fs' = fs(save_path \<mapsto> Xlsx_file workbook)
     \<and> length workbook = length items + 1
     \<and> length (sheet_rows cities) = length cities \<and> set (sheet_rows cities) = set cities
     \<and> (\<forall>i j. i < j \<and> j < length cities \<longrightarrow>
           length (districts_list (sheet_rows cities ! j)) \<le>
           length (districts_list (sheet_rows cities ! i)))
     \<and> (\<forall>i j. i < length cities \<and> j < length cities \<and>
           length (districts_list (sheet_rows cities ! j)) <
           length (districts_list (sheet_rows cities ! i)) \<longrightarrow> i < j)
     \<and> (\<forall>n. filter (\<lambda>city. length (districts_list city) = n) (sheet_rows cities) =
             filter (\<lambda>city. length (districts_list city) = n) cities)
     \<and> (\<forall>i < length cities.
           cells (workbook ! k) (i + 1, 1) =
             Some \<lparr>cell_value = item (sheet_rows cities ! i) ''name'', cell_font = Font True 12\<rparr>
           \<and> (\<forall>j < length (districts_list (sheet_rows cities ! i)).
                 cells (workbook ! k) (i + 1, j + 2) =
                   Some \<lparr>cell_value = districts_list (sheet_rows cities ! i) ! j,
                         cell_font = default_font\<rparr>))
     \<and> (\<forall>r c. cells (workbook ! k) (r, c) =
           (if 1 \<le> r \<and> r \<le> length cities then row_cell (sheet_rows cities ! (r - 1)) c
            else None))"
proof -
  from save_to_excel_sheets [OF assms(1,2,4)] obtain workbook where
    w: "fs' = fs(save_path \<mapsto> Xlsx_file workbook)" "length workbook = length items + 1"
       "\<forall>k < length items. write_sheet (fst (items ! k)) (snd (items ! k)) = Inr (workbook ! k)"
    by blast
  have "write_sheet region (JArr cities) = Inr (workbook ! k)"
    using w(3) assms(5,6) by auto
  from write_sheet_rows [OF this] w(1,2) show ?thesis by blast
qed

text \<open>
  The render scenario: the document lists City B with one district before City A with
  three; in the saved workbook City A is row 1 with three district cells, City B row 2
  with one.
\<close>

theorem saved_sheet_rows_by_descending_district_count_witness:
  "\<exists>fs' workbook.
      save_to_excel ''out.xlsx'' ''in.json''
        (Map.empty(''in.json'' \<mapsto> Text_file (Json_text (JObj [(''Riyadh'',
           JArr [JObj [(''name'', JStr ''City B''), (''id'', JStr ''2''),
                       (''districts'', JArr [JStr ''b1''])],
                 JObj [(''name'', JStr ''City A''), (''id'', JStr ''1''),
                       (''districts'', JArr [JStr ''a1'', JStr ''a2'', JStr ''a3''])]])])))) = Inr fs'
      \<and> fs' ''out.xlsx'' = Some (Xlsx_file workbook)
      \<and> length workbook = 2
      \<and> cells (workbook ! 0) (1, 1) = Some \<lparr>cell_value = JStr ''City A'', cell_font = Font True 12\<rparr>
      \<and> cells (workbook ! 0) (1, 2) = Some \<lparr>cell_value = JStr ''a1'', cell_font = default_font\<rparr>
      \<and> cells (workbook ! 0) (1, 3) = Some \<lparr>cell_value = JStr ''a2'', cell_font = default_font\<rparr>
      \<and> cells (workbook ! 0) (1, 4) = Some \<lparr>cell_value = JStr ''a3'', cell_font = default_font\<rparr>
      \<and> cells (workbook ! 0) (1, 5) = None
      \<and> cells (workbook ! 0) (2, 1) = Some \<lparr>cell_value = JStr ''City B'', cell_font = Font True 12\<rparr>
      \<and> cells (workbook ! 0) (2, 2) = Some \<lparr>cell_value = JStr ''b1'', cell_font = default_font\<rparr>
      \<and> cells (workbook ! 0) (2, 3) = None
      \<and> cells (workbook ! 0) (3, 1) = None"
proof -
  let ?B = "JObj [(''name'', JStr ''City B''), (''id'', JStr ''2''), (''districts'', JArr [JStr ''b1''])]"
  let ?A = "JObj [(''name'', JStr ''City A''), (''id'', JStr ''1''),
                       (''districts'', JArr [JStr ''a1'', JStr ''a2'', JStr ''a3''])]"
  let ?items = "[(''Riyadh'', JArr [?B, ?A])]"
  let ?t = "Json_text (JObj ?items)"
  let ?fs = "Map.empty(''in.json'' \<mapsto> Text_file ?t) :: file_system"
  have "\<not> isl (write_sheets 1 ?items Workbook)"
    by code_simp
  then obtain wb where wb: "write_sheets 1 ?items Workbook = Inr wb"
    by (cases "write_sheets 1 ?items Workbook") auto
  have l: "json_loads ?t = Inr (JObj ?items)"
    by simp
  have f: "?fs ''in.json'' = Some (Text_file ?t)"
    by simp
  have s: "save_to_excel ''out.xlsx'' ''in.json'' ?fs = Inr (?fs(''out.xlsx'' \<mapsto> Xlsx_file wb))"
    using wb l by (simp add: save_to_excel_def)
  have p: "plain_document ?items"
    by (simp add: plain_document_def plain_city_def stored_unchanged_def illegal_character_def
        refused_in_title_def item_def districts_list_def)
  have k: "0 < length ?items" "?items ! 0 = (''Riyadh'', JArr [?B, ?A])"
    by simp_all
  have rows: "sheet_rows [?B, ?A] = [?A, ?B]"
    by (simp add: sheet_rows_def district_count_def)
  from saved_sheet_rows_by_descending_district_count [OF f l p s k] obtain workbook where
    w: "?fs(''out.xlsx'' \<mapsto> Xlsx_file wb) = ?fs(''out.xlsx'' \<mapsto> Xlsx_file workbook)"
    and n: "length workbook = length ?items + 1"
    and c: "\<forall>r c. cells (workbook ! 0) (r, c) =
           (if 1 \<le> r \<and> r \<le> length [?B, ?A] then row_cell (sheet_rows [?B, ?A] ! (r - 1)) c
            else None)"
    by blast
  have "cells (workbook ! 0) (1, 1) = Some \<lparr>cell_value = JStr ''City A'', cell_font = Font True 12\<rparr>"
    "cells (workbook ! 0) (1, 2) = Some \<lparr>cell_value = JStr ''a1'', cell_font = default_font\<rparr>"
    "cells (workbook ! 0) (1, 3) = Some \<lparr>cell_value = JStr ''a2'', cell_font = default_font\<rparr>"
    "cells (workbook ! 0) (1, 4) = Some \<lparr>cell_value = JStr ''a3'', cell_font = default_font\<rparr>"
    "cells (workbook ! 0) (1, 5) = None"
    "cells (workbook ! 0) (2, 1) = Some \<lparr>cell_value = JStr ''City B'', cell_font = Font True 12\<rparr>"
    "cells (workbook ! 0) (2, 2) = Some \<lparr>cell_value = JStr ''b1'', cell_font = default_font\<rparr>"
    "cells (workbook ! 0) (2, 3) = None"
    "cells (workbook ! 0) (3, 1) = None"
    unfolding c [rule_format] rows
    by (simp_all add: row_cell_def item_def districts_list_def)
  moreover have "(?fs(''out.xlsx'' \<mapsto> Xlsx_file wb)) ''out.xlsx'' = Some (Xlsx_file workbook)"
    unfolding w by simp
  moreover have "length workbook = 2" using n by simp
  ultimately show ?thesis using s by blast
qed

section \<open>Properties of the Exporter: column widths\<close>

lemma round_scaled_mono: "a \<le> b \<Longrightarrow> round_scaled a \<le> round_scaled b"
  by (simp add: round_scaled_def div_le_mono)

lemma Max_name_width:
  "Max (insert (6 / 5) (name_width ` set cities)) =
     max (6 / 5) (of_nat (round_scaled (longest_name cities)))"
proof (cases "cities = []")
  case True
  then show ?thesis by (simp add: longest_name_def round_scaled_def)
next
  case False
  let ?len = "\<lambda>city. value_len (item city ''name'')"
  let ?f = "\<lambda>n. (of_nat (round_scaled n) :: rat)"
  have mono: "mono ?f" by (simp add: mono_def round_scaled_mono)
  have ne: "?len ` set cities \<noteq> {}" using False by simp
  have nn: "name_width ` set cities = ?f ` (?len ` set cities)"
    by (auto simp: name_width_def image_image)
  have "longest_name cities = Max (?len ` set cities)"
    using ne by (simp add: longest_name_def max_def)
  then have "?f (longest_name cities) = Max (?f ` (?len ` set cities))"
    using mono_Max_commute [OF mono _ ne] by simp
  then have "Max (name_width ` set cities) = ?f (longest_name cities)" using nn by simp
  moreover have "Max (insert (6 / 5) (name_width ` set cities)) =
      max (6 / 5) (Max (name_width ` set cities))"
    using False by simp
  ultimately show ?thesis by simp
qed

lemma widths_grow:
  assumes run: "write_cities count xs (sh, mx, lens) = Inr (sh', mx', lens')"
    and inv: "\<forall>c \<ge> 2. column_width sh c = map_option of_nat (lens c)"
    and w1: "column_width sh 1 = Some mx"
    and empty: "\<forall>r \<ge> count. \<forall>c. cells sh (r, c) = None"
    and c: "1 \<le> c" and w: "column_width sh c = Some w"
  shows "\<exists>w'. column_width sh' c = Some w' \<and> w \<le> w'"
proof -
  from write_cities_result [OF run inv w1 empty] have
    m: "mx' = fold (\<lambda>city m. max m (name_width city)) xs mx"
    and m1: "column_width sh' 1 = Some mx'"
    and l: "\<forall>j. lens' (j + 2) = fold (\<lambda>n l. widen l n) (column_lens xs j) (lens (j + 2))"
    and inv': "\<forall>c \<ge> 2. column_width sh' c = map_option of_nat (lens' c)"
    by simp_all
  show ?thesis
  proof (cases "c = 1")
    case True
    have "mx \<le> mx'" unfolding m fold_max_name_width by simp
    then show ?thesis using True w w1 m1 by simp
  next
    case False
    then have c2: "2 \<le> c" using c by simp
    then obtain j where j: "c = j + 2" by (metis add.commute le_Suc_ex)
    from w inv c2 obtain l0 where l0: "lens c = Some l0" "w = of_nat l0" by auto
    from fold_widen_grows [of "column_lens xs j" l0] obtain l' where
      "fold (\<lambda>n l. widen l n) (column_lens xs j) (Some l0) = Some l'" "l0 \<le> l'" by blast
    then have "lens' c = Some l'" using l l0 j by simp
    then have "column_width sh' c = Some (of_nat l')" using inv' c2 by simp
    then show ?thesis using l0(2) \<open>l0 \<le> l'\<close> by simp
  qed
qed

lemma prefix_state:
  assumes run: "write_cities 1 rows (blank_sheet region, 6 / 5, Map.empty) = Inr st"
  shows "\<exists>shn mxn lensn.
           write_cities 1 (take n rows) (blank_sheet region, 6 / 5, Map.empty) = Inr (shn, mxn, lensn)
           \<and> (\<forall>c \<ge> 2. column_width shn c = map_option of_nat (lensn c))
           \<and> column_width shn 1 = Some mxn
           \<and> (\<forall>r \<ge> 1 + length (take n rows). \<forall>c. cells shn (r, c) = None)"
proof -
  have "write_cities 1 (take n rows @ drop n rows) (blank_sheet region, 6 / 5, Map.empty) = Inr st"
    using run by simp
  then obtain stn where
    stn: "write_cities 1 (take n rows) (blank_sheet region, 6 / 5, Map.empty) = Inr stn"
    unfolding write_cities_append by (auto split: sum.splits)
  obtain shn mxn lensn where s: "stn = (shn, mxn, lensn)" by (cases stn)
  from write_cities_result [OF stn [unfolded s] blank_sheet_facts(1,2,3)] have
    "\<forall>r c. cells shn (r, c) =
           (if 1 \<le> r \<and> r < 1 + length (take n rows) then row_cell (take n rows ! (r - 1)) c
            else cells (blank_sheet region) (r, c))"
    and "column_width shn 1 = Some mxn"
    and "\<forall>c \<ge> 2. column_width shn c = map_option of_nat (lensn c)"
    by simp_all
  moreover have "cells (blank_sheet region) (r, c) = None" for r c
    using blank_sheet_facts(3) [of 0 region] by simp
  ultimately show ?thesis using stn s by auto
qed

lemma sheet_after_grows:
  assumes run: "write_cities 1 rows (blank_sheet region, 6 / 5, Map.empty) = Inr st"
    and nm: "n \<le> m" and c: "1 \<le> c"
    and w: "column_width (sheet_after region rows n) c = Some w"
  shows "\<exists>w'. column_width (sheet_after region rows m) c = Some w' \<and> w \<le> w'"
proof -
  let ?init = "(blank_sheet region, 6 / 5, Map.empty :: nat \<Rightarrow> nat option)"
  from prefix_state [OF run, of n] obtain shn mxn lensn where
    n: "write_cities 1 (take n rows) ?init = Inr (shn, mxn, lensn)"
    and inv: "\<forall>c \<ge> 2. column_width shn c = map_option of_nat (lensn c)"
    and w1: "column_width shn 1 = Some mxn"
    and empty: "\<forall>r \<ge> 1 + length (take n rows). \<forall>c. cells shn (r, c) = None"
    by blast
  from prefix_state [OF run, of m] obtain shm mxm lensm where
    m: "write_cities 1 (take m rows) ?init = Inr (shm, mxm, lensm)"
    by blast
  have "take m rows = take n rows @ take (m - n) (drop n rows)"
    using nm by (metis le_add_diff_inverse take_add)
  then have "write_cities 1 (take n rows @ take (m - n) (drop n rows)) ?init = Inr (shm, mxm, lensm)"
    using m by simp
  then have mid: "write_cities (1 + length (take n rows)) (take (m - n) (drop n rows))
      (shn, mxn, lensn) = Inr (shm, mxm, lensm)"
    unfolding write_cities_append n by simp
  have "column_width shn c = Some w" using w n by (simp add: sheet_after_def)
  from widths_grow [OF mid inv w1 empty c this]
  show ?thesis using m by (simp add: sheet_after_def)
qed

text \<open>
  C7, as the code has it.  Column widths never shrink while the rows of a sheet are
  written.  At the end column 1 is as wide as the larger of the initial 1.2 and the
  length of the longest city name times 1.2, rounded to the nearest integer.  A district
  column that holds no district has no width set; a district column whose first district
  name (in row order) is not empty is as wide as the longest district name placed in it,
  whichever city supplied it.
\<close>

theorem column_widths_only_grow:
  assumes "write_sheet region (JArr cities) = Inr sh"
  shows "column_width sh 1 = Some (max (6 / 5) (of_nat (round_scaled (longest_name cities))))
     \<and> (\<forall>j. column_lens (sheet_rows cities) j = [] \<longrightarrow> column_width sh (j + 2) = None)
     \<and> (\<forall>j. column_lens (sheet_rows cities) j \<noteq> [] \<and>
              hd (column_lens (sheet_rows cities) j) \<noteq> 0 \<longrightarrow>
              column_width sh (j + 2) =
                Some (of_nat (Max (set (column_lens (sheet_rows cities) j)))))
     \<and> sheet_after region (sheet_rows cities) (length cities) = sh
     \<and> (\<forall>n m c w. n \<le> m \<and> m \<le> length cities \<and> 1 \<le> c \<and>
              column_width (sheet_after region (sheet_rows cities) n) c = Some w \<longrightarrow>
              (\<exists>w'. column_width (sheet_after region (sheet_rows cities) m) c = Some w' \<and> w \<le> w'))"
proof -
  let ?rows = "sheet_rows cities"
  from write_sheet_run [OF assms] obtain mx lens where
    run: "write_cities 1 ?rows (blank_sheet region, 6 / 5, Map.empty) = Inr (sh, mx, lens)"
    by blast
  have len: "length ?rows = length cities" and set: "set ?rows = set cities"
    by (simp_all add: sheet_rows_def)
  from write_cities_result [OF run blank_sheet_facts(1,2,3)] have
    m: "mx = fold (\<lambda>city m. max m (name_width city)) ?rows (6 / 5)"
    and m1: "column_width sh 1 = Some mx"
    and l: "\<forall>j. lens (j + 2) = fold (\<lambda>n l. widen l n) (column_lens ?rows j) None"
    and inv: "\<forall>c \<ge> 2. column_width sh c = map_option of_nat (lens c)"
    by simp_all
  have 1: "column_width sh 1 = Some (max (6 / 5) (of_nat (round_scaled (longest_name cities))))"
    using m m1 by (simp add: fold_max_name_width set Max_name_width)
  have w: "column_width sh (j + 2) =
      map_option of_nat (fold (\<lambda>n l. widen l n) (column_lens ?rows j) None)" for j
    using inv l by simp
  have 2: "\<forall>j. column_lens ?rows j = [] \<longrightarrow> column_width sh (j + 2) = None"
    using w by simp
  have 3: "\<forall>j. column_lens ?rows j \<noteq> [] \<and> hd (column_lens ?rows j) \<noteq> 0 \<longrightarrow>
              column_width sh (j + 2) = Some (of_nat (Max (set (column_lens ?rows j))))"
  proof (intro allI impI)
    fix j assume a: "column_lens ?rows j \<noteq> [] \<and> hd (column_lens ?rows j) \<noteq> 0"
    then obtain n rest where nr: "column_lens ?rows j = n # rest" "n \<noteq> 0"
      by (cases "column_lens ?rows j") auto
    then show "column_width sh (j + 2) = Some (of_nat (Max (set (column_lens ?rows j))))"
      using w [of j] by (simp add: fold_widen_Some)
  qed
  have 4: "sheet_after region ?rows (length cities) = sh"
    using run len by (simp add: sheet_after_def)
  have 5: "\<forall>n m c w. n \<le> m \<and> m \<le> length cities \<and> 1 \<le> c \<and>
              column_width (sheet_after region ?rows n) c = Some w \<longrightarrow>
              (\<exists>w'. column_width (sheet_after region ?rows m) c = Some w' \<and> w \<le> w')"
    using sheet_after_grows [OF run] by blast
  show ?thesis using 1 2 3 4 5 by blast
qed

theorem column_widths_only_grow_witness:
  "\<exists>sh. write_sheet ''Riyadh''
          (JArr [JObj [(''name'', JStr ''City B''), (''id'', JInt 2),
                       (''districts'', JArr [JStr ''bbbbb''])],
                 JObj [(''name'', JStr ''Long City A''), (''id'', JInt 1),
                       (''districts'', JArr [JStr ''a1'', JStr ''a22'', JStr ''a333''])]]) = Inr sh
      \<and> column_width sh 1 = Some 13
      \<and> column_width sh 2 = Some 5
      \<and> column_width sh 3 = Some 3
      \<and> column_width sh 4 = Some 4
      \<and> column_width sh 5 = None
      \<and> (\<exists>w'. column_width sh 2 = Some w' \<and> 2 \<le> w')"
proof -
  let ?B = "JObj [(''name'', JStr ''City B''), (''id'', JInt 2), (''districts'', JArr [JStr ''bbbbb''])]"
  let ?A = "JObj [(''name'', JStr ''Long City A''), (''id'', JInt 1),
                       (''districts'', JArr [JStr ''a1'', JStr ''a22'', JStr ''a333''])]"
  have "\<not> isl (write_sheet ''Riyadh'' (JArr [?B, ?A]))"
    by code_simp
  then obtain sh where sh: "write_sheet ''Riyadh'' (JArr [?B, ?A]) = Inr sh"
    by (cases "write_sheet ''Riyadh'' (JArr [?B, ?A])") auto
  have rows: "sheet_rows [?B, ?A] = [?A, ?B]"
    by (simp add: sheet_rows_def district_count_def)
  have lens: "column_lens [?A, ?B] 0 = [2, 5]" "column_lens [?A, ?B] 1 = [3]"
    "column_lens [?A, ?B] 2 = [4]" "column_lens [?A, ?B] 3 = []"
    by (simp_all add: column_lens_def districts_list_def item_def value_len_def)
  have longest: "longest_name [?B, ?A] = 11"
    by (simp add: longest_name_def item_def value_len_def)
  have after1: "column_width (sheet_after ''Riyadh'' [?A, ?B] 1) 2 = Some 2"
    by code_simp
  note t = column_widths_only_grow [OF sh, unfolded rows]
  note w1 = t [THEN conjunct1]
    and none = t [THEN conjunct2, THEN conjunct1]
    and some = t [THEN conjunct2, THEN conjunct2, THEN conjunct1]
    and last = t [THEN conjunct2, THEN conjunct2, THEN conjunct2, THEN conjunct1]
    and grow = t [THEN conjunct2, THEN conjunct2, THEN conjunct2, THEN conjunct2]
  have c1: "column_width sh 1 = Some 13"
    using w1 by (simp add: longest round_scaled_def)
  have c2: "column_width sh 2 = Some 5"
  proof -
    have "column_lens [?A, ?B] 0 \<noteq> [] \<and> hd (column_lens [?A, ?B] 0) \<noteq> 0"
      by (simp only: lens) simp
    from some [rule_format, OF this]
    have "column_width sh (0 + 2) = Some (of_nat (Max (set [2, 5])))" by (simp only: lens)
    then show ?thesis by (simp add: eval_nat_numeral)
  qed
  have c3: "column_width sh 3 = Some 3"
  proof -
    have "column_lens [?A, ?B] 1 \<noteq> [] \<and> hd (column_lens [?A, ?B] 1) \<noteq> 0"
      by (simp only: lens) simp
    from some [rule_format, OF this]
    have "column_width sh (1 + 2) = Some (of_nat (Max (set [3])))" by (simp only: lens)
    then show ?thesis by (simp add: eval_nat_numeral)
  qed
  have c4: "column_width sh 4 = Some 4"
  proof -
    have "column_lens [?A, ?B] 2 \<noteq> [] \<and> hd (column_lens [?A, ?B] 2) \<noteq> 0"
      by (simp only: lens) simp
    from some [rule_format, OF this]
    have "column_width sh (2 + 2) = Some (of_nat (Max (set [4])))" by (simp only: lens)
    then show ?thesis by (simp add: eval_nat_numeral)
  qed
  have c5: "column_width sh 5 = None"
  proof -
    from none [rule_format, OF lens(4)]
    have "column_width sh (3 + 2) = None" .
    then show ?thesis by (simp add: eval_nat_numeral)
  qed
  have "(1 :: nat) \<le> 2 \<and> 2 \<le> length [?B, ?A] \<and> (1 :: nat) \<le> 2 \<and>
      column_width (sheet_after ''Riyadh'' [?A, ?B] 1) 2 = Some 2"
    using after1 by simp
  from grow [rule_format, OF this] last
  have c6: "\<exists>w'. column_width sh 2 = Some w' \<and> 2 \<le> w'" by (simp add: numeral_2_eq_2)
  show ?thesis using sh c1 c2 c3 c4 c5 c6 by (intro exI [of _ sh]) simp
qed

text \<open>
  The claim as stated fails.  With the city names \<^verbatim>\<open>abc\<close> and \<^verbatim>\<open>b\<close>, column 1 ends
  4 wide, not 3.6; and the district column, first given an empty name and then
  \<^verbatim>\<open>xyz\<close>, ends 0 wide, not 3.
\<close>

theorem column_widths_counterexample:
  "map_sum id (\<lambda>sh. (column_width sh 1, column_width sh 2))
     (write_sheet ''R''
        (JArr [JObj [(''name'', JStr ''abc''), (''id'', JInt 1), (''districts'', JArr [JStr ''''])],
               JObj [(''name'', JStr ''b''), (''id'', JInt 2), (''districts'', JArr [JStr ''xyz''])]])) =
   Inr (Some 4, Some 0)
   \<and> (4 :: rat) \<noteq> 3 * (6 / 5) \<and> (0 :: rat) \<noteq> 3"
  by code_simp

end
